theory Spec2Isabelle
  imports Main "HOL-Library.Sublist" "HOL-Library.Stream" "HOL-Library.AList"
    "HOL-Library.List_Lexorder" "HOL-Library.Char_ord"
begin

section \<open>String-slice helpers\<close>

text \<open>
  Go strings are byte sequences; they are modelled as \<^typ>\<open>string\<close> (a list of
  8-bit characters). A \<open>[]string\<close> is a \<^typ>\<open>string list\<close>; where the source writes
  into the backing array of a slice, the array is the list and the write is a list update.
\<close>

subsection \<open>StringInSlice\<close>

text \<open>
  \<^verbatim>\<open>func StringInSlice(a string, list []string) (index int, isIn bool)\<close>: the index of the
  first element equal to \<open>a\<close>, or \<open>(-1, false)\<close>. The loop over positions is the
  recursion over the list, the position being counted from the current head.
\<close>

fun StringInSlice_from :: "int \<Rightarrow> string \<Rightarrow> string list \<Rightarrow> int \<times> bool" where
  "StringInSlice_from i a [] = (-1, False)"
| "StringInSlice_from i a (b # list) =
     (if b = a then (i, True) else StringInSlice_from (i + 1) a list)"

definition StringInSlice :: "string \<Rightarrow> string list \<Rightarrow> int \<times> bool" where
  "StringInSlice a list = StringInSlice_from 0 a list"

subsection \<open>RemoveDuplicates\<close>

text \<open>
  \<^verbatim>\<open>func RemoveDuplicates(options *[]string, otherStringsToClean ...string)\<close> is defined
  twice with the same text (package \<open>helpers\<close> and package \<open>ui\<close>); one model serves both.

  \<open>found\<close> is a Go \<open>map[string]bool\<close>: reading a missing key gives \<open>false\<close>.
\<close>

definition lookup_found :: "(string \<rightharpoonup> bool) \<Rightarrow> string \<Rightarrow> bool" where
  "lookup_found found x = (case found x of None \<Rightarrow> False | Some b \<Rightarrow> b)"

text \<open>The first loop: \<^verbatim>\<open>for _, o := range otherStringsToClean { found[o] = true }\<close>.\<close>

fun mark_found :: "string list \<Rightarrow> (string \<rightharpoonup> bool) \<Rightarrow> (string \<rightharpoonup> bool)" where
  "mark_found [] found = found"
| "mark_found (s # ss) found = mark_found ss (found(s \<mapsto> True))"

text \<open>
  The second loop, \<^verbatim>\<open>for i, x := range *options\<close>, with the write
  \<^verbatim>\<open>(*options)[j] = (*options)[i]\<close> into the array being read. The range expression is
  evaluated once, so the bound is the length on entry (an update keeps the length);
  \<open>x\<close> is read from the current array at each iteration.
\<close>

function RemoveDuplicates_loop ::
  "(string \<rightharpoonup> bool) \<Rightarrow> nat \<Rightarrow> nat \<Rightarrow> string list \<Rightarrow> string list \<times> nat" where
  "RemoveDuplicates_loop found j i arr =
     (if i < length arr then
        (let x = arr ! i in
         if \<not> lookup_found found x \<and> x \<noteq> [] then
           RemoveDuplicates_loop (found(x \<mapsto> True)) (j + 1) (i + 1) (arr[j := arr ! i])
         else RemoveDuplicates_loop found j (i + 1) arr)
      else (arr, j))"
  by pat_completeness auto
termination
  by (relation "measure (\<lambda>(found, j, i, arr). length arr - i)") auto

declare RemoveDuplicates_loop.simps [simp del]

text \<open>
  The whole function; the result is the slice the caller's variable holds afterwards,
  \<^verbatim>\<open>*options = (*options)[:j]\<close>.
\<close>

definition RemoveDuplicates :: "string list \<Rightarrow> string list \<Rightarrow> string list" where
  "RemoveDuplicates options otherStringsToClean =
     (case RemoveDuplicates_loop (mark_found otherStringsToClean Map.empty) 0 0 options of
        (arr, j) \<Rightarrow> take j arr)"

section \<open>Functions of the Go standard library used by the code\<close>

text \<open>
  The models below are of functions of the packages \<open>unicode/utf8\<close>, \<open>unicode\<close>,
  \<open>strings\<close>, \<open>strconv\<close> and \<open>fmt\<close>. A byte is a \<^typ>\<open>char\<close>, its value is \<open>of_char\<close>; a
  rune is a code point, a natural number.
\<close>

subsection \<open>UTF-8\<close>

type_synonym rune = nat

definition RuneError :: rune where
  "RuneError = 0xFFFD"

text \<open>
  \<open>utf8.DecodeRuneInString\<close>: the first rune of the string and its width in bytes. An
  encoding that is not valid (a stray or missing continuation byte, an overlong form, a
  surrogate, a value above U+10FFFF) gives \<open>(RuneError, 1)\<close>, the empty string
  \<open>(RuneError, 0)\<close>. The second byte of a sequence has the range that the first byte
  allows, the other continuation bytes are between 0x80 and 0xBF.
\<close>

definition DecodeRuneInString :: "string \<Rightarrow> rune \<times> nat" where
  "DecodeRuneInString s =
     (case map of_char s of
        [] \<Rightarrow> (RuneError, 0)
      | s0 # t \<Rightarrow>
          if s0 < 0x80 then (s0, 1)
          else if s0 < 0xC2 \<or> 0xF4 < s0 then (RuneError, 1)
          else
            (let sz = (if s0 < 0xE0 then 2 else if s0 < 0xF0 then 3 else (4 :: nat));
                 lo = (if s0 = 0xE0 then 0xA0 else if s0 = 0xF0 then 0x90 else 0x80);
                 hi = (if s0 = 0xED then 0x9F else if s0 = 0xF4 then 0x8F else 0xBF)
             in if length s < sz then (RuneError, 1)
                else if t ! 0 < lo \<or> hi < t ! 0 then (RuneError, 1)
                else if sz \<le> 2 then (s0 mod 0x20 * 0x40 + t ! 0 mod 0x40, 2)
                else if t ! 1 < 0x80 \<or> 0xBF < t ! 1 then (RuneError, 1)
                else if sz \<le> 3
                  then (s0 mod 0x10 * 0x1000 + t ! 0 mod 0x40 * 0x40 + t ! 1 mod 0x40, 3)
                else if t ! 2 < 0x80 \<or> 0xBF < t ! 2 then (RuneError, 1)
                else (s0 mod 8 * 0x40000 + t ! 0 mod 0x40 * 0x1000 + t ! 1 mod 0x40 * 0x40
                        + t ! 2 mod 0x40, 4)))"

text \<open>\<open>utf8.RuneStart\<close>: the byte is not a continuation byte.\<close>

definition RuneStart :: "char \<Rightarrow> bool" where
  "RuneStart b = (\<not> (0x80 \<le> (of_char b :: nat) \<and> (of_char b :: nat) < 0xC0))"

text \<open>
  \<open>utf8.DecodeLastRuneInString\<close>: the last rune of the string and its width. It looks for
  the start of the rune among the three bytes before the last, the nearest first, and
  decodes from there; the rune must end where the string ends.
\<close>

definition DecodeLastRuneInString :: "string \<Rightarrow> rune \<times> nat" where
  "DecodeLastRuneInString s =
     (if s = [] then (RuneError, 0)
      else if (of_char (last s) :: nat) < 0x80 then (of_char (last s), 1)
      else (case find (\<lambda>start. RuneStart (s ! start)) (rev [length s - 4 ..< length s - 1]) of
              None \<Rightarrow> (RuneError, 1)
            | Some start \<Rightarrow>
                (case DecodeRuneInString (drop start s) of
                   (r, wid) \<Rightarrow> if start + wid \<noteq> length s then (RuneError, 1) else (r, wid))))"

text \<open>
  \<open>utf8.EncodeRune\<close>, as \<open>strings.Builder.WriteRune\<close> uses it: a surrogate or a value
  above U+10FFFF is written as \<open>RuneError\<close>.
\<close>

definition EncodeRune :: "rune \<Rightarrow> string" where
  "EncodeRune r =
     (if r < 0x80 then [char_of r]
      else if r < 0x800 then [char_of (0xC0 + r div 0x40), char_of (0x80 + r mod 0x40)]
      else if 0x10FFFF < r \<or> (0xD800 \<le> r \<and> r \<le> 0xDFFF)
        then [char_of (0xEF :: nat), char_of (0xBF :: nat), char_of (0xBD :: nat)]
      else if r < 0x10000
        then [char_of (0xE0 + r div 0x1000), char_of (0x80 + r div 0x40 mod 0x40),
              char_of (0x80 + r mod 0x40)]
      else [char_of (0xF0 + r div 0x40000), char_of (0x80 + r div 0x1000 mod 0x40),
            char_of (0x80 + r div 0x40 mod 0x40), char_of (0x80 + r mod 0x40)])"

lemma DecodeRuneInString_width:
  "s \<noteq> [] \<Longrightarrow> DecodeRuneInString s = (r, wid) \<Longrightarrow> 0 < wid"
  by (cases s) (auto simp add: DecodeRuneInString_def Let_def split: if_splits)

lemma DecodeRuneInString_drop:
  "s \<noteq> [] \<Longrightarrow> (r, wid) = DecodeRuneInString s \<Longrightarrow> length s - wid < length s"
  using DecodeRuneInString_width[of s r wid] by (cases s) auto

lemma DecodeLastRuneInString_width:
  assumes "s \<noteq> []" and "(r, wid) = DecodeLastRuneInString s"
  shows "0 < wid \<and> wid \<le> length s"
proof (cases "(of_char (last s) :: nat) < 0x80")
  case True
  then show ?thesis using assms by (cases s) (auto simp: DecodeLastRuneInString_def)
next
  case False
  show ?thesis
  proof (cases "find (\<lambda>start. RuneStart (s ! start)) (rev [length s - 4 ..< length s - 1])")
    case None
    then show ?thesis using assms False by (cases s) (auto simp: DecodeLastRuneInString_def)
  next
    case (Some start)
    then have "start \<in> set (rev [length s - 4 ..< length s - 1])"
      by (metis find_Some_iff nth_mem)
    then have lt: "start < length s" by auto
    obtain r' wid' where d: "DecodeRuneInString (drop start s) = (r', wid')"
      by (cases "DecodeRuneInString (drop start s)")
    have "0 < wid'" using DecodeRuneInString_width[OF _ d] lt by simp
    then show ?thesis
      using assms False Some d lt
      by (cases s) (auto simp: DecodeLastRuneInString_def split: if_splits)
  qed
qed

text \<open>The runes of a string, as \<^verbatim>\<open>for _, c := range s\<close> gives them.\<close>

function runes :: "string \<Rightarrow> rune list" where
  "runes s =
     (if s = [] then []
      else (case DecodeRuneInString s of (r, wid) \<Rightarrow> r # runes (drop wid s)))"
  by pat_completeness auto
termination
  by (relation "measure length") (auto intro: DecodeRuneInString_drop)

declare runes.simps [simp del]

subsection \<open>Case mapping and white space (package unicode)\<close>

text \<open>
  \<open>unicode.ToLower\<close> and \<open>unicode.ToUpper\<close> map a rune by the simple case mappings of the
  Unicode character database (version 15.0). The tables hold the runes above U+007F that
  the mapping changes, as ranges \<open>(lo, hi, stride, to)\<close>: the runes \<open>lo\<close>, \<open>lo + stride\<close>, ...
  up to \<open>hi\<close> are mapped to \<open>to\<close>, \<open>to + stride\<close>, ... in this order.
\<close>

definition lower_ranges :: "(rune \<times> rune \<times> nat \<times> rune) list" where
  "lower_ranges =
     [
      (0x00C0, 0x00D6, 1, 0x00E0), (0x00D8, 0x00DE, 1, 0x00F8), (0x0100, 0x012E, 2, 0x0101), (0x0130, 0x0130, 1, 0x0069),
      (0x0132, 0x0136, 2, 0x0133), (0x0139, 0x0147, 2, 0x013A), (0x014A, 0x0176, 2, 0x014B), (0x0178, 0x0178, 1, 0x00FF),
      (0x0179, 0x017D, 2, 0x017A), (0x0181, 0x0181, 1, 0x0253), (0x0182, 0x0184, 2, 0x0183), (0x0186, 0x0186, 1, 0x0254),
      (0x0187, 0x0187, 1, 0x0188), (0x0189, 0x018A, 1, 0x0256), (0x018B, 0x018B, 1, 0x018C), (0x018E, 0x018E, 1, 0x01DD),
      (0x018F, 0x018F, 1, 0x0259), (0x0190, 0x0190, 1, 0x025B), (0x0191, 0x0191, 1, 0x0192), (0x0193, 0x0193, 1, 0x0260),
      (0x0194, 0x0194, 1, 0x0263), (0x0196, 0x0196, 1, 0x0269), (0x0197, 0x0197, 1, 0x0268), (0x0198, 0x0198, 1, 0x0199),
      (0x019C, 0x019C, 1, 0x026F), (0x019D, 0x019D, 1, 0x0272), (0x019F, 0x019F, 1, 0x0275), (0x01A0, 0x01A4, 2, 0x01A1),
      (0x01A6, 0x01A6, 1, 0x0280), (0x01A7, 0x01A7, 1, 0x01A8), (0x01A9, 0x01A9, 1, 0x0283), (0x01AC, 0x01AC, 1, 0x01AD),
      (0x01AE, 0x01AE, 1, 0x0288), (0x01AF, 0x01AF, 1, 0x01B0), (0x01B1, 0x01B2, 1, 0x028A), (0x01B3, 0x01B5, 2, 0x01B4),
      (0x01B7, 0x01B7, 1, 0x0292), (0x01B8, 0x01B8, 1, 0x01B9), (0x01BC, 0x01BC, 1, 0x01BD), (0x01C4, 0x01C4, 1, 0x01C6),
      (0x01C5, 0x01C5, 1, 0x01C6), (0x01C7, 0x01C7, 1, 0x01C9), (0x01C8, 0x01C8, 1, 0x01C9), (0x01CA, 0x01CA, 1, 0x01CC),
      (0x01CB, 0x01DB, 2, 0x01CC), (0x01DE, 0x01EE, 2, 0x01DF), (0x01F1, 0x01F1, 1, 0x01F3), (0x01F2, 0x01F4, 2, 0x01F3),
      (0x01F6, 0x01F6, 1, 0x0195), (0x01F7, 0x01F7, 1, 0x01BF), (0x01F8, 0x021E, 2, 0x01F9), (0x0220, 0x0220, 1, 0x019E),
      (0x0222, 0x0232, 2, 0x0223), (0x023A, 0x023A, 1, 0x2C65), (0x023B, 0x023B, 1, 0x023C), (0x023D, 0x023D, 1, 0x019A),
      (0x023E, 0x023E, 1, 0x2C66), (0x0241, 0x0241, 1, 0x0242), (0x0243, 0x0243, 1, 0x0180), (0x0244, 0x0244, 1, 0x0289),
      (0x0245, 0x0245, 1, 0x028C), (0x0246, 0x024E, 2, 0x0247), (0x0370, 0x0372, 2, 0x0371), (0x0376, 0x0376, 1, 0x0377),
      (0x037F, 0x037F, 1, 0x03F3), (0x0386, 0x0386, 1, 0x03AC), (0x0388, 0x038A, 1, 0x03AD), (0x038C, 0x038C, 1, 0x03CC),
      (0x038E, 0x038F, 1, 0x03CD), (0x0391, 0x03A1, 1, 0x03B1), (0x03A3, 0x03AB, 1, 0x03C3), (0x03CF, 0x03CF, 1, 0x03D7),
      (0x03D8, 0x03EE, 2, 0x03D9), (0x03F4, 0x03F4, 1, 0x03B8), (0x03F7, 0x03F7, 1, 0x03F8), (0x03F9, 0x03F9, 1, 0x03F2),
      (0x03FA, 0x03FA, 1, 0x03FB), (0x03FD, 0x03FF, 1, 0x037B), (0x0400, 0x040F, 1, 0x0450), (0x0410, 0x042F, 1, 0x0430),
      (0x0460, 0x0480, 2, 0x0461), (0x048A, 0x04BE, 2, 0x048B), (0x04C0, 0x04C0, 1, 0x04CF), (0x04C1, 0x04CD, 2, 0x04C2),
      (0x04D0, 0x052E, 2, 0x04D1), (0x0531, 0x0556, 1, 0x0561), (0x10A0, 0x10C5, 1, 0x2D00), (0x10C7, 0x10C7, 1, 0x2D27),
      (0x10CD, 0x10CD, 1, 0x2D2D), (0x13A0, 0x13EF, 1, 0xAB70), (0x13F0, 0x13F5, 1, 0x13F8), (0x1C90, 0x1CBA, 1, 0x10D0),
      (0x1CBD, 0x1CBF, 1, 0x10FD), (0x1E00, 0x1E94, 2, 0x1E01), (0x1E9E, 0x1E9E, 1, 0x00DF), (0x1EA0, 0x1EFE, 2, 0x1EA1),
      (0x1F08, 0x1F0F, 1, 0x1F00), (0x1F18, 0x1F1D, 1, 0x1F10), (0x1F28, 0x1F2F, 1, 0x1F20), (0x1F38, 0x1F3F, 1, 0x1F30),
      (0x1F48, 0x1F4D, 1, 0x1F40), (0x1F59, 0x1F5F, 2, 0x1F51), (0x1F68, 0x1F6F, 1, 0x1F60), (0x1F88, 0x1F8F, 1, 0x1F80),
      (0x1F98, 0x1F9F, 1, 0x1F90), (0x1FA8, 0x1FAF, 1, 0x1FA0), (0x1FB8, 0x1FB9, 1, 0x1FB0), (0x1FBA, 0x1FBB, 1, 0x1F70),
      (0x1FBC, 0x1FBC, 1, 0x1FB3), (0x1FC8, 0x1FCB, 1, 0x1F72), (0x1FCC, 0x1FCC, 1, 0x1FC3), (0x1FD8, 0x1FD9, 1, 0x1FD0),
      (0x1FDA, 0x1FDB, 1, 0x1F76), (0x1FE8, 0x1FE9, 1, 0x1FE0), (0x1FEA, 0x1FEB, 1, 0x1F7A), (0x1FEC, 0x1FEC, 1, 0x1FE5),
      (0x1FF8, 0x1FF9, 1, 0x1F78), (0x1FFA, 0x1FFB, 1, 0x1F7C), (0x1FFC, 0x1FFC, 1, 0x1FF3), (0x2126, 0x2126, 1, 0x03C9),
      (0x212A, 0x212A, 1, 0x006B), (0x212B, 0x212B, 1, 0x00E5), (0x2132, 0x2132, 1, 0x214E), (0x2160, 0x216F, 1, 0x2170),
      (0x2183, 0x2183, 1, 0x2184), (0x24B6, 0x24CF, 1, 0x24D0), (0x2C00, 0x2C2F, 1, 0x2C30), (0x2C60, 0x2C60, 1, 0x2C61),
      (0x2C62, 0x2C62, 1, 0x026B), (0x2C63, 0x2C63, 1, 0x1D7D), (0x2C64, 0x2C64, 1, 0x027D), (0x2C67, 0x2C6B, 2, 0x2C68),
      (0x2C6D, 0x2C6D, 1, 0x0251), (0x2C6E, 0x2C6E, 1, 0x0271), (0x2C6F, 0x2C6F, 1, 0x0250), (0x2C70, 0x2C70, 1, 0x0252),
      (0x2C72, 0x2C72, 1, 0x2C73), (0x2C75, 0x2C75, 1, 0x2C76), (0x2C7E, 0x2C7F, 1, 0x023F), (0x2C80, 0x2CE2, 2, 0x2C81),
      (0x2CEB, 0x2CED, 2, 0x2CEC), (0x2CF2, 0x2CF2, 1, 0x2CF3), (0xA640, 0xA66C, 2, 0xA641), (0xA680, 0xA69A, 2, 0xA681),
      (0xA722, 0xA72E, 2, 0xA723), (0xA732, 0xA76E, 2, 0xA733), (0xA779, 0xA77B, 2, 0xA77A), (0xA77D, 0xA77D, 1, 0x1D79),
      (0xA77E, 0xA786, 2, 0xA77F), (0xA78B, 0xA78B, 1, 0xA78C), (0xA78D, 0xA78D, 1, 0x0265), (0xA790, 0xA792, 2, 0xA791),
      (0xA796, 0xA7A8, 2, 0xA797), (0xA7AA, 0xA7AA, 1, 0x0266), (0xA7AB, 0xA7AB, 1, 0x025C), (0xA7AC, 0xA7AC, 1, 0x0261),
      (0xA7AD, 0xA7AD, 1, 0x026C), (0xA7AE, 0xA7AE, 1, 0x026A), (0xA7B0, 0xA7B0, 1, 0x029E), (0xA7B1, 0xA7B1, 1, 0x0287),
      (0xA7B2, 0xA7B2, 1, 0x029D), (0xA7B3, 0xA7B3, 1, 0xAB53), (0xA7B4, 0xA7C2, 2, 0xA7B5), (0xA7C4, 0xA7C4, 1, 0xA794),
      (0xA7C5, 0xA7C5, 1, 0x0282), (0xA7C6, 0xA7C6, 1, 0x1D8E), (0xA7C7, 0xA7C9, 2, 0xA7C8), (0xA7D0, 0xA7D0, 1, 0xA7D1),
      (0xA7D6, 0xA7D8, 2, 0xA7D7), (0xA7F5, 0xA7F5, 1, 0xA7F6), (0xFF21, 0xFF3A, 1, 0xFF41), (0x10400, 0x10427, 1, 0x10428),
      (0x104B0, 0x104D3, 1, 0x104D8), (0x10570, 0x1057A, 1, 0x10597), (0x1057C, 0x1058A, 1, 0x105A3), (0x1058C, 0x10592, 1, 0x105B3),
      (0x10594, 0x10595, 1, 0x105BB), (0x10C80, 0x10CB2, 1, 0x10CC0), (0x118A0, 0x118BF, 1, 0x118C0), (0x16E40, 0x16E5F, 1, 0x16E60),
      (0x1E900, 0x1E921, 1, 0x1E922)
     ]"

definition upper_ranges :: "(rune \<times> rune \<times> nat \<times> rune) list" where
  "upper_ranges =
     [
      (0x00B5, 0x00B5, 1, 0x039C), (0x00E0, 0x00F6, 1, 0x00C0), (0x00F8, 0x00FE, 1, 0x00D8), (0x00FF, 0x00FF, 1, 0x0178),
      (0x0101, 0x012F, 2, 0x0100), (0x0131, 0x0131, 1, 0x0049), (0x0133, 0x0137, 2, 0x0132), (0x013A, 0x0148, 2, 0x0139),
      (0x014B, 0x0177, 2, 0x014A), (0x017A, 0x017E, 2, 0x0179), (0x017F, 0x017F, 1, 0x0053), (0x0180, 0x0180, 1, 0x0243),
      (0x0183, 0x0185, 2, 0x0182), (0x0188, 0x0188, 1, 0x0187), (0x018C, 0x018C, 1, 0x018B), (0x0192, 0x0192, 1, 0x0191),
      (0x0195, 0x0195, 1, 0x01F6), (0x0199, 0x0199, 1, 0x0198), (0x019A, 0x019A, 1, 0x023D), (0x019E, 0x019E, 1, 0x0220),
      (0x01A1, 0x01A5, 2, 0x01A0), (0x01A8, 0x01A8, 1, 0x01A7), (0x01AD, 0x01AD, 1, 0x01AC), (0x01B0, 0x01B0, 1, 0x01AF),
      (0x01B4, 0x01B6, 2, 0x01B3), (0x01B9, 0x01B9, 1, 0x01B8), (0x01BD, 0x01BD, 1, 0x01BC), (0x01BF, 0x01BF, 1, 0x01F7),
      (0x01C5, 0x01C5, 1, 0x01C4), (0x01C6, 0x01C6, 1, 0x01C4), (0x01C8, 0x01C8, 1, 0x01C7), (0x01C9, 0x01C9, 1, 0x01C7),
      (0x01CB, 0x01CB, 1, 0x01CA), (0x01CC, 0x01CC, 1, 0x01CA), (0x01CE, 0x01DC, 2, 0x01CD), (0x01DD, 0x01DD, 1, 0x018E),
      (0x01DF, 0x01EF, 2, 0x01DE), (0x01F2, 0x01F2, 1, 0x01F1), (0x01F3, 0x01F3, 1, 0x01F1), (0x01F5, 0x01F5, 1, 0x01F4),
      (0x01F9, 0x021F, 2, 0x01F8), (0x0223, 0x0233, 2, 0x0222), (0x023C, 0x023C, 1, 0x023B), (0x023F, 0x0240, 1, 0x2C7E),
      (0x0242, 0x0242, 1, 0x0241), (0x0247, 0x024F, 2, 0x0246), (0x0250, 0x0250, 1, 0x2C6F), (0x0251, 0x0251, 1, 0x2C6D),
      (0x0252, 0x0252, 1, 0x2C70), (0x0253, 0x0253, 1, 0x0181), (0x0254, 0x0254, 1, 0x0186), (0x0256, 0x0257, 1, 0x0189),
      (0x0259, 0x0259, 1, 0x018F), (0x025B, 0x025B, 1, 0x0190), (0x025C, 0x025C, 1, 0xA7AB), (0x0260, 0x0260, 1, 0x0193),
      (0x0261, 0x0261, 1, 0xA7AC), (0x0263, 0x0263, 1, 0x0194), (0x0265, 0x0265, 1, 0xA78D), (0x0266, 0x0266, 1, 0xA7AA),
      (0x0268, 0x0268, 1, 0x0197), (0x0269, 0x0269, 1, 0x0196), (0x026A, 0x026A, 1, 0xA7AE), (0x026B, 0x026B, 1, 0x2C62),
      (0x026C, 0x026C, 1, 0xA7AD), (0x026F, 0x026F, 1, 0x019C), (0x0271, 0x0271, 1, 0x2C6E), (0x0272, 0x0272, 1, 0x019D),
      (0x0275, 0x0275, 1, 0x019F), (0x027D, 0x027D, 1, 0x2C64), (0x0280, 0x0280, 1, 0x01A6), (0x0282, 0x0282, 1, 0xA7C5),
      (0x0283, 0x0283, 1, 0x01A9), (0x0287, 0x0287, 1, 0xA7B1), (0x0288, 0x0288, 1, 0x01AE), (0x0289, 0x0289, 1, 0x0244),
      (0x028A, 0x028B, 1, 0x01B1), (0x028C, 0x028C, 1, 0x0245), (0x0292, 0x0292, 1, 0x01B7), (0x029D, 0x029D, 1, 0xA7B2),
      (0x029E, 0x029E, 1, 0xA7B0), (0x0345, 0x0345, 1, 0x0399), (0x0371, 0x0373, 2, 0x0370), (0x0377, 0x0377, 1, 0x0376),
      (0x037B, 0x037D, 1, 0x03FD), (0x03AC, 0x03AC, 1, 0x0386), (0x03AD, 0x03AF, 1, 0x0388), (0x03B1, 0x03C1, 1, 0x0391),
      (0x03C2, 0x03C2, 1, 0x03A3), (0x03C3, 0x03CB, 1, 0x03A3), (0x03CC, 0x03CC, 1, 0x038C), (0x03CD, 0x03CE, 1, 0x038E),
      (0x03D0, 0x03D0, 1, 0x0392), (0x03D1, 0x03D1, 1, 0x0398), (0x03D5, 0x03D5, 1, 0x03A6), (0x03D6, 0x03D6, 1, 0x03A0),
      (0x03D7, 0x03D7, 1, 0x03CF), (0x03D9, 0x03EF, 2, 0x03D8), (0x03F0, 0x03F0, 1, 0x039A), (0x03F1, 0x03F1, 1, 0x03A1),
      (0x03F2, 0x03F2, 1, 0x03F9), (0x03F3, 0x03F3, 1, 0x037F), (0x03F5, 0x03F5, 1, 0x0395), (0x03F8, 0x03F8, 1, 0x03F7),
      (0x03FB, 0x03FB, 1, 0x03FA), (0x0430, 0x044F, 1, 0x0410), (0x0450, 0x045F, 1, 0x0400), (0x0461, 0x0481, 2, 0x0460),
      (0x048B, 0x04BF, 2, 0x048A), (0x04C2, 0x04CE, 2, 0x04C1), (0x04CF, 0x04CF, 1, 0x04C0), (0x04D1, 0x052F, 2, 0x04D0),
      (0x0561, 0x0586, 1, 0x0531), (0x10D0, 0x10FA, 1, 0x1C90), (0x10FD, 0x10FF, 1, 0x1CBD), (0x13F8, 0x13FD, 1, 0x13F0),
      (0x1C80, 0x1C80, 1, 0x0412), (0x1C81, 0x1C81, 1, 0x0414), (0x1C82, 0x1C82, 1, 0x041E), (0x1C83, 0x1C84, 1, 0x0421),
      (0x1C85, 0x1C85, 1, 0x0422), (0x1C86, 0x1C86, 1, 0x042A), (0x1C87, 0x1C87, 1, 0x0462), (0x1C88, 0x1C88, 1, 0xA64A),
      (0x1D79, 0x1D79, 1, 0xA77D), (0x1D7D, 0x1D7D, 1, 0x2C63), (0x1D8E, 0x1D8E, 1, 0xA7C6), (0x1E01, 0x1E95, 2, 0x1E00),
      (0x1E9B, 0x1E9B, 1, 0x1E60), (0x1EA1, 0x1EFF, 2, 0x1EA0), (0x1F00, 0x1F07, 1, 0x1F08), (0x1F10, 0x1F15, 1, 0x1F18),
      (0x1F20, 0x1F27, 1, 0x1F28), (0x1F30, 0x1F37, 1, 0x1F38), (0x1F40, 0x1F45, 1, 0x1F48), (0x1F51, 0x1F57, 2, 0x1F59),
      (0x1F60, 0x1F67, 1, 0x1F68), (0x1F70, 0x1F71, 1, 0x1FBA), (0x1F72, 0x1F75, 1, 0x1FC8), (0x1F76, 0x1F77, 1, 0x1FDA),
      (0x1F78, 0x1F79, 1, 0x1FF8), (0x1F7A, 0x1F7B, 1, 0x1FEA), (0x1F7C, 0x1F7D, 1, 0x1FFA), (0x1F80, 0x1F87, 1, 0x1F88),
      (0x1F90, 0x1F97, 1, 0x1F98), (0x1FA0, 0x1FA7, 1, 0x1FA8), (0x1FB0, 0x1FB1, 1, 0x1FB8), (0x1FB3, 0x1FB3, 1, 0x1FBC),
      (0x1FBE, 0x1FBE, 1, 0x0399), (0x1FC3, 0x1FC3, 1, 0x1FCC), (0x1FD0, 0x1FD1, 1, 0x1FD8), (0x1FE0, 0x1FE1, 1, 0x1FE8),
      (0x1FE5, 0x1FE5, 1, 0x1FEC), (0x1FF3, 0x1FF3, 1, 0x1FFC), (0x214E, 0x214E, 1, 0x2132), (0x2170, 0x217F, 1, 0x2160),
      (0x2184, 0x2184, 1, 0x2183), (0x24D0, 0x24E9, 1, 0x24B6), (0x2C30, 0x2C5F, 1, 0x2C00), (0x2C61, 0x2C61, 1, 0x2C60),
      (0x2C65, 0x2C65, 1, 0x023A), (0x2C66, 0x2C66, 1, 0x023E), (0x2C68, 0x2C6C, 2, 0x2C67), (0x2C73, 0x2C73, 1, 0x2C72),
      (0x2C76, 0x2C76, 1, 0x2C75), (0x2C81, 0x2CE3, 2, 0x2C80), (0x2CEC, 0x2CEE, 2, 0x2CEB), (0x2CF3, 0x2CF3, 1, 0x2CF2),
      (0x2D00, 0x2D25, 1, 0x10A0), (0x2D27, 0x2D27, 1, 0x10C7), (0x2D2D, 0x2D2D, 1, 0x10CD), (0xA641, 0xA66D, 2, 0xA640),
      (0xA681, 0xA69B, 2, 0xA680), (0xA723, 0xA72F, 2, 0xA722), (0xA733, 0xA76F, 2, 0xA732), (0xA77A, 0xA77C, 2, 0xA779),
      (0xA77F, 0xA787, 2, 0xA77E), (0xA78C, 0xA78C, 1, 0xA78B), (0xA791, 0xA793, 2, 0xA790), (0xA794, 0xA794, 1, 0xA7C4),
      (0xA797, 0xA7A9, 2, 0xA796), (0xA7B5, 0xA7C3, 2, 0xA7B4), (0xA7C8, 0xA7CA, 2, 0xA7C7), (0xA7D1, 0xA7D1, 1, 0xA7D0),
      (0xA7D7, 0xA7D9, 2, 0xA7D6), (0xA7F6, 0xA7F6, 1, 0xA7F5), (0xAB53, 0xAB53, 1, 0xA7B3), (0xAB70, 0xABBF, 1, 0x13A0),
      (0xFF41, 0xFF5A, 1, 0xFF21), (0x10428, 0x1044F, 1, 0x10400), (0x104D8, 0x104FB, 1, 0x104B0), (0x10597, 0x105A1, 1, 0x10570),
      (0x105A3, 0x105B1, 1, 0x1057C), (0x105B3, 0x105B9, 1, 0x1058C), (0x105BB, 0x105BC, 1, 0x10594), (0x10CC0, 0x10CF2, 1, 0x10C80),
      (0x118C0, 0x118DF, 1, 0x118A0), (0x16E60, 0x16E7F, 1, 0x16E40), (0x1E922, 0x1E943, 1, 0x1E900)
     ]"

definition to_case :: "(rune \<times> rune \<times> nat \<times> rune) list \<Rightarrow> rune \<Rightarrow> rune" where
  "to_case caseRange r =
     (case find (\<lambda>(lo, hi, stride, to). lo \<le> r \<and> r \<le> hi \<and> (r - lo) mod stride = 0) caseRange of
        None \<Rightarrow> r
      | Some (lo, hi, stride, to) \<Rightarrow> to + (r - lo))"

definition unicode_ToLower :: "rune \<Rightarrow> rune" where
  "unicode_ToLower r =
     (if r \<le> 0x7F then (if 0x41 \<le> r \<and> r \<le> 0x5A then r + 0x20 else r)
      else to_case lower_ranges r)"

definition unicode_ToUpper :: "rune \<Rightarrow> rune" where
  "unicode_ToUpper r =
     (if r \<le> 0x7F then (if 0x61 \<le> r \<and> r \<le> 0x7A then r - 0x20 else r)
      else to_case upper_ranges r)"

text \<open>
  \<open>unicode.IsSpace\<close>: the runes with the property White_Space, which are tab, line feed,
  vertical tab, form feed, carriage return, space, U+0085, U+00A0, U+1680, U+2000 to
  U+200A, U+2028, U+2029, U+202F, U+205F and U+3000.
\<close>

definition unicode_IsSpace :: "rune \<Rightarrow> bool" where
  "unicode_IsSpace r =
     ((0x09 \<le> r \<and> r \<le> 0x0D) \<or> r = 0x20 \<or> r = 0x85 \<or> r = 0xA0 \<or> r = 0x1680 \<or>
      (0x2000 \<le> r \<and> r \<le> 0x200A) \<or> r = 0x2028 \<or> r = 0x2029 \<or> r = 0x202F \<or> r = 0x205F \<or>
      r = 0x3000)"

subsection \<open>Package strings\<close>

text \<open>
  \<open>strings.Map(mapping, s)\<close> for a mapping that drops no rune: the runes of \<open>s\<close>, mapped
  and encoded again; a byte that is not part of a valid encoding becomes the encoding of
  \<open>RuneError\<close>. \<open>strings.ToUpper\<close> and \<open>strings.ToLower\<close> are
  \<open>Map(unicode.ToUpper, s)\<close> and \<open>Map(unicode.ToLower, s)\<close>; their shortcut for a string of
  ASCII bytes gives the same result.
\<close>

definition Map :: "(rune \<Rightarrow> rune) \<Rightarrow> string \<Rightarrow> string" where
  "Map mapping s = concat (map (\<lambda>c. EncodeRune (mapping c)) (runes s))"

definition ToUpper :: "string \<Rightarrow> string" where
  "ToUpper s = Map unicode_ToUpper s"

definition ToLower :: "string \<Rightarrow> string" where
  "ToLower s = Map unicode_ToLower s"

text \<open>
  \<open>strings.TrimLeftFunc\<close> drops runes from the left while \<open>f\<close> holds.
  \<open>strings.TrimRightFunc\<close> looks from the right for the last rune where \<open>f\<close> does not hold
  and cuts after it; \<open>lastIndexFunc s f truth\<close> is the loop of that name on the prefix
  \<open>s[0:i]\<close> still to look at, and gives the index of the rune found or \<open>-1\<close>.
  \<open>strings.TrimSpace(s)\<close> is \<open>TrimFunc(s, unicode.IsSpace)\<close>.
\<close>

function TrimLeftFunc :: "string \<Rightarrow> (rune \<Rightarrow> bool) \<Rightarrow> string" where
  "TrimLeftFunc s f =
     (if s = [] then []
      else (case DecodeRuneInString s of
              (r, wid) \<Rightarrow> if f r then TrimLeftFunc (drop wid s) f else s))"
  by pat_completeness auto
termination
  by (relation "measure (\<lambda>(s, f). length s)") (auto intro: DecodeRuneInString_drop)

declare TrimLeftFunc.simps [simp del]

function lastIndexFunc :: "string \<Rightarrow> (rune \<Rightarrow> bool) \<Rightarrow> bool \<Rightarrow> int" where
  "lastIndexFunc s f truth =
     (if s \<noteq> [] then
        (case DecodeLastRuneInString s of
           (r, wid) \<Rightarrow>
             if f r = truth then int (length s) - int wid
             else lastIndexFunc (take (length s - wid) s) f truth)
      else - 1)"
  by pat_completeness auto
termination
  by (relation "measure (\<lambda>(s, f, truth). length s)")
     (auto dest: DecodeLastRuneInString_width)

declare lastIndexFunc.simps [simp del]

definition TrimRightFunc :: "string \<Rightarrow> (rune \<Rightarrow> bool) \<Rightarrow> string" where
  "TrimRightFunc s f =
     (let i = lastIndexFunc s f False
      in if 0 \<le> i \<and> 0x80 \<le> (of_char (s ! nat i) :: nat)
         then take (nat i + snd (DecodeRuneInString (drop (nat i) s))) s
         else take (nat (i + 1)) s)"

definition TrimSpace :: "string \<Rightarrow> string" where
  "TrimSpace s = TrimRightFunc (TrimLeftFunc s unicode_IsSpace) unicode_IsSpace"

definition HasPrefix :: "string \<Rightarrow> string \<Rightarrow> bool" where
  "HasPrefix s p = (take (length p) s = p)"

text \<open>\<open>strings.Contains(s, substr)\<close>: \<open>substr\<close> occurs at some position of \<open>s\<close>.\<close>

fun Contains :: "string \<Rightarrow> string \<Rightarrow> bool" where
  "Contains [] substr = (substr = [])"
| "Contains (c # cs) substr = (HasPrefix (c # cs) substr \<or> Contains cs substr)"

text \<open>
  \<open>strings.Replace(s, old, "", -1)\<close>, the only way the code calls it: every occurrence of
  \<open>old\<close> is removed, from the left, occurrences not overlapping; with an empty \<open>old\<close> the
  empty string is put between the characters, which leaves \<open>s\<close>.
\<close>

function Replace :: "string \<Rightarrow> string \<Rightarrow> string" where
  "Replace [] old = []"
| "Replace (c # cs) old =
     (if old \<noteq> [] \<and> HasPrefix (c # cs) old then Replace (drop (length old) (c # cs)) old
      else c # Replace cs old)"
  by pat_completeness auto
termination
  by (relation "measure (\<lambda>(s, old). length s)") auto

text \<open>
  \<open>strconv.Atoi\<close> on a 64-bit platform: an optional sign, then at least one decimal digit
  and nothing else; a value outside the range of \<open>int\<close> is an error. \<open>None\<close> is the error.
\<close>

definition digit_val :: "char \<Rightarrow> nat option" where
  "digit_val c = map_of (zip ''0123456789'' [0, 1, 2, 3, 4, 5, 6, 7, 8, 9]) c"

fun digits_val :: "nat \<Rightarrow> string \<Rightarrow> nat option" where
  "digits_val n [] = Some n"
| "digits_val n (c # cs) =
     (case digit_val c of None \<Rightarrow> None | Some d \<Rightarrow> digits_val (n * 10 + d) cs)"

definition Atoi :: "string \<Rightarrow> int option" where
  "Atoi s =
     (let neg = (s \<noteq> [] \<and> hd s = CHR ''-'');
          s1 = (if s \<noteq> [] \<and> (hd s = CHR ''-'' \<or> hd s = CHR ''+'') then tl s else s)
      in if s1 = [] then None
         else (case digits_val 0 s1 of
                 None \<Rightarrow> None
               | Some n \<Rightarrow>
                   (let v = (if neg then - int n else int n)
                    in if - (2 ^ 63) \<le> v \<and> v < 2 ^ 63 then Some v else None)))"

text \<open>The verb \<open>%d\<close> of \<open>fmt.Sprintf\<close>.\<close>

function nat_digits :: "nat \<Rightarrow> string" where
  "nat_digits n =
     (if n < 10 then [''0123456789'' ! n]
      else nat_digits (n div 10) @ [''0123456789'' ! (n mod 10)])"
  by pat_completeness auto
termination
  by (relation "measure id") auto

declare nat_digits.simps [simp del]

definition Sprintf_d :: "int \<Rightarrow> string" where
  "Sprintf_d i = (if i < 0 then CHR ''-'' # nat_digits (nat (- i)) else nat_digits (nat i))"

subsection \<open>CaseInsensitiveContains\<close>

definition CaseInsensitiveContains :: "string \<Rightarrow> string \<Rightarrow> bool" where
  "CaseInsensitiveContains s substr = Contains (ToLower s) (ToLower substr)"

section \<open>The user interface (package ui)\<close>

text \<open>
  A Go \<open>error\<close> is \<open>nil\<close> or an error value: \<^typ>\<open>'a option\<close> over the errors below.
  \<open>errors_New m\<close> is \<open>errors.New(m)\<close>, \<open>io_EOF\<close> is \<open>io.EOF\<close>, \<open>os_ErrNotExist\<close> is the
  error that \<open>os.IsNotExist\<close> recognises, and \<open>other_error\<close> stands for the other errors
  of the operating system and of external commands.
\<close>

datatype error = io_EOF | os_ErrNotExist | errors_New string | other_error string

definition invalidChoice :: string where "invalidChoice = ''Invalid choice.''"
definition userAborted :: string where "userAborted = ''User aborted.''"
definition LocalTag :: string where "LocalTag = ''[current] ''"
definition OnlineTag :: string where "OnlineTag = ''[online/new] ''"

text \<open>
  The colour methods \<open>CyanBold\<close> and \<open>YellowBold\<close> of \<open>UI\<close> are called by \<open>Tag\<close> and
  \<open>unTag\<close> and are not part of the sources at hand: they are taken as parameters, fields
  of the receiver.
\<close>

record UI =
  CyanBold :: "string \<Rightarrow> string"
  YellowBold :: "string \<Rightarrow> string"

definition Tag :: "UI \<Rightarrow> string \<Rightarrow> bool \<Rightarrow> string" where
  "Tag ui entry isLocal =
     (if isLocal then CyanBold ui LocalTag @ entry else YellowBold ui OnlineTag @ entry)"

definition unTag :: "UI \<Rightarrow> string \<Rightarrow> string" where
  "unTag ui option =
     TrimSpace (Replace (Replace option (CyanBold ui LocalTag)) (YellowBold ui OnlineTag))"

text \<open>
  What the user does is the environment: \<open>stdin\<close> gives, for each call of
  \<open>ReadString('\n')\<close> on the standard input, the text read and the error; \<open>editor\<close> gives,
  for each run of the external editor by \<open>Edit\<close>, the error of the step that failed or
  the content of the file read back. Both are streams: a user can go on for ever.
  What the functions print (prompts, warnings) is not part of the model.
\<close>

record env =
  stdin :: "(string \<times> error option) stream"
  editor :: "(error + string) stream"

definition GetInput :: "env \<Rightarrow> (string \<times> error option) \<times> env" where
  "GetInput e =
     (case shd (stdin e) of (choice, scanErr) \<Rightarrow>
        ((TrimSpace choice, scanErr), e\<lparr>stdin := stl (stdin e)\<rparr>))"

definition Accept :: "env \<Rightarrow> string \<Rightarrow> bool \<times> env" where
  "Accept e question =
     (case GetInput e of ((input, err), e') \<Rightarrow>
        (err = None \<and> (input = ''y'' \<or> input = ''Y'' \<or> input = ''yes''), e'))"

definition Edit :: "env \<Rightarrow> string \<Rightarrow> (string \<times> error option) \<times> env" where
  "Edit e oldValue =
     (case shd (editor e) of
        Inl err \<Rightarrow> ((oldValue, Some err), e\<lparr>editor := stl (editor e)\<rparr>)
      | Inr newContent \<Rightarrow> ((TrimSpace newContent, None), e\<lparr>editor := stl (editor e)\<rparr>))"

subsection \<open>SelectOption\<close>

text \<open>
  \<^verbatim>\<open>allVersions += fmt.Sprintf("--- %d ---\n%s\n", i+1, ui.unTag(o))\<close> over the options.
\<close>

fun allVersions_from :: "UI \<Rightarrow> int \<Rightarrow> string list \<Rightarrow> string" where
  "allVersions_from ui i [] = []"
| "allVersions_from ui i (opt # options) =
     ''--- '' @ Sprintf_d (i + 1) @ '' ---'' @ [CHR 0x0A] @ unTag ui opt @ [CHR 0x0A]
       @ allVersions_from ui (i + 1) options"

text \<open>
  One pass through the \<open>if / else if\<close> chain on the choice read: \<open>Some r\<close> where the
  source returns \<open>r\<close>, \<open>None\<close> where control leaves the chain and reaches the common
  tail \<^verbatim>\<open>if !validChoice { ... errs++ ... }\<close> (\<open>validChoice\<close> is never set).
\<close>

definition SelectOption_choice ::
  "UI \<Rightarrow> string list \<Rightarrow> bool \<Rightarrow> string \<Rightarrow> env \<Rightarrow> (string \<times> error option) option \<times> env" where
  "SelectOption_choice ui options longField choice e1 =
     (if ToUpper choice = ''E'' then
        (case (if longField then Edit e1 (allVersions_from ui 0 options) else GetInput e1) of
           ((edited, scanErr), e2) \<Rightarrow>
             (case scanErr of
                Some err \<Rightarrow> (Some ([], Some err), e2)
              | None \<Rightarrow>
                 (case Accept e2 (''Confirm: '' @ edited) of (confirmed, e3) \<Rightarrow>
                    if confirmed then (Some (edited, None), e3) else (None, e3))))
      else if ToUpper choice = ''A'' then (Some ([], Some (errors_New userAborted)), e1)
      else if ToUpper choice = ''B'' then (Some ([], None), e1)
      else (case Atoi choice of
              Some index \<Rightarrow>
                if 0 < index \<and> index \<le> int (length options)
                then (Some (unTag ui (options ! nat (index - 1)), None), e1)
                else (None, e1)
            | None \<Rightarrow> (None, e1)))"

text \<open>The loop \<^verbatim>\<open>for !validChoice\<close>; the value \<open>None\<close> is a loop that never returns.\<close>

partial_function (option) SelectOption_loop ::
  "UI \<Rightarrow> string list \<Rightarrow> bool \<Rightarrow> int \<Rightarrow> env \<Rightarrow> ((string \<times> error option) \<times> env) option" where
  "SelectOption_loop ui options longField errs e =
     (case GetInput e of ((choice, scanErr), e1) \<Rightarrow>
        (case scanErr of
           Some err \<Rightarrow> Some (([], Some err), e1)
         | None \<Rightarrow>
            (case SelectOption_choice ui options longField choice e1 of
               (Some r, e') \<Rightarrow> Some (r, e')
             | (None, e') \<Rightarrow>
                 if errs + 1 > 10 then Some (([], Some (errors_New invalidChoice)), e')
                 else SelectOption_loop ui options longField (errs + 1) e')))"

definition SelectOption ::
  "UI \<Rightarrow> string \<Rightarrow> string \<Rightarrow> string list \<Rightarrow> bool \<Rightarrow> env
     \<Rightarrow> ((string \<times> error option) \<times> env) option" where
  "SelectOption ui title usage options longField e =
     SelectOption_loop ui (RemoveDuplicates options []) longField 0 e"

subsection \<open>UpdateValue\<close>

text \<open>
  The loop \<^verbatim>\<open>for !validChoice\<close> with its variables \<open>validChoice\<close>, \<open>newValue\<close> (the named
  result) and \<open>errs\<close>; after the loop, \<^verbatim>\<open>return strings.TrimSpace(newValue), nil\<close>.
\<close>

partial_function (option) UpdateValue_loop ::
  "string \<Rightarrow> bool \<Rightarrow> bool \<Rightarrow> string \<Rightarrow> int \<Rightarrow> env \<Rightarrow> ((string \<times> error option) \<times> env) option" where
  "UpdateValue_loop oldValue longField validChoice newValue errs e =
     (if \<not> validChoice then
        (case GetInput e of ((choice, scanErr), e1) \<Rightarrow>
           (case scanErr of
              Some err \<Rightarrow> Some ((newValue, Some err), e1)
            | None \<Rightarrow>
                if ToLower choice = ''e'' then
                  (case (if longField then Edit e1 oldValue else GetInput e1) of
                     ((choice', scanErr'), e2) \<Rightarrow>
                       (case scanErr' of
                          Some err \<Rightarrow> Some ((newValue, Some err), e2)
                        | None \<Rightarrow>
                           (case Accept e2 ''Confirm'' of (confirmed, e3) \<Rightarrow>
                              if confirmed
                              then UpdateValue_loop oldValue longField True choice' errs e3
                              else UpdateValue_loop oldValue longField validChoice newValue errs e3)))
                else if ToLower choice = ''k''
                then UpdateValue_loop oldValue longField True oldValue errs e1
                else if errs + 1 > 10 then Some (([], Some (errors_New invalidChoice)), e1)
                else UpdateValue_loop oldValue longField validChoice newValue (errs + 1) e1))
      else Some ((TrimSpace newValue, None), e))"

definition UpdateValue ::
  "string \<Rightarrow> string \<Rightarrow> string \<Rightarrow> bool \<Rightarrow> env \<Rightarrow> ((string \<times> error option) \<times> env) option" where
  "UpdateValue field usage oldValue longField e =
     UpdateValue_loop oldValue longField False [] 0 e"

section \<open>SpinWhileThingsHappen\<close>

text \<open>
  \<^verbatim>\<open>func SpinWhileThingsHappen(title string, f func() error) (err error)\<close> starts two
  goroutines and then selects on their channels, both unbuffered:
  \<^item> the spinner routine, \<^verbatim>\<open>for range ticker.C { c1 <- true }\<close>, waits for a tick and then
    blocks sending on \<open>c1\<close>;
  \<^item> the worker routine, \<^verbatim>\<open>c2 <- f()\<close>, runs \<open>f\<close> and then blocks sending its result on \<open>c2\<close>;
  \<^item> the caller loops on \<^verbatim>\<open>select\<close> until it has received from \<open>c2\<close>.
  The state holds where each of the three is; a step is one event of the run. An event
  that cannot happen in a state (a receive with no sender, a tick while the routine is
  blocked) leaves the state as it is, so every list of events is a schedule, and the
  schedules are all the interleavings.
\<close>

datatype spinner_routine = AwaitingTick | SendingC1
datatype worker_routine = RunningF | SendingC2 "error option" | WorkerDone
datatype caller = Selecting | Returned "error option"

record spin_state =
  spinner :: spinner_routine
  worker :: worker_routine
  caller :: caller

datatype event = Tick | FReturns | ReceiveC1 | ReceiveC2

definition spin_init :: spin_state where
  "spin_init = \<lparr>spinner = AwaitingTick, worker = RunningF, caller = Selecting\<rparr>"

text \<open>
  \<open>fres\<close> is the error \<open>f\<close> returns. On \<^verbatim>\<open>case err := <-c2\<close> the caller returns \<open>err\<close> when it
  is not nil; otherwise it sets \<open>functionDone\<close>, leaves the loop and returns the named
  result, which was never assigned (the \<open>err\<close> of the case is a new variable) and is nil.
\<close>

fun spin_step :: "error option \<Rightarrow> event \<Rightarrow> spin_state \<Rightarrow> spin_state" where
  "spin_step fres Tick s =
     (if spinner s = AwaitingTick then s\<lparr>spinner := SendingC1\<rparr> else s)"
| "spin_step fres FReturns s =
     (if worker s = RunningF then s\<lparr>worker := SendingC2 fres\<rparr> else s)"
| "spin_step fres ReceiveC1 s =
     (if caller s = Selecting \<and> spinner s = SendingC1 then s\<lparr>spinner := AwaitingTick\<rparr> else s)"
| "spin_step fres ReceiveC2 s =
     (case (caller s, worker s) of
        (Selecting, SendingC2 err) \<Rightarrow>
          (case err of
             Some e \<Rightarrow> s\<lparr>worker := WorkerDone, caller := Returned (Some e)\<rparr>
           | None \<Rightarrow> s\<lparr>worker := WorkerDone, caller := Returned None\<rparr>)
      | _ \<Rightarrow> s)"

definition spin_run :: "error option \<Rightarrow> event list \<Rightarrow> spin_state" where
  "spin_run fres sched = fold (spin_step fres) sched spin_init"

text \<open>
  The call under a schedule: \<open>Some err\<close> when the caller has returned \<open>err\<close> by the end of
  the schedule, \<open>None\<close> when it is still selecting.
\<close>

definition SpinWhileThingsHappen ::
  "string \<Rightarrow> error option \<Rightarrow> event list \<Rightarrow> error option option" where
  "SpinWhileThingsHappen title fres sched =
     (case caller (spin_run fres sched) of Returned err \<Rightarrow> Some err | Selecting \<Rightarrow> None)"

section \<open>The string-slice helpers over an explicit store\<close>

text \<open>
  A Go slice is a pointer into a backing array with a length; the callers of
  RemoveDuplicates and StringInSlice may hold other slices of the same array and other
  data. Here the memory is a store of string cells, a slice is an address and a length,
  and the two functions read and write the cells of the store, as the source does.
  CaseInsensitiveContains takes two strings, which are values in Go, and nothing else.
\<close>

type_synonym addr = nat
type_synonym heap = "addr \<Rightarrow> string"

record slice =
  ptr :: addr
  len :: nat

text \<open>The list a slice denotes in a store, and the cells it covers.\<close>

definition load :: "heap \<Rightarrow> slice \<Rightarrow> string list" where
  "load h s = map (\<lambda>i. h (ptr s + i)) [0..<len s]"

definition cells :: "slice \<Rightarrow> addr set" where
  "cells s = {ptr s ..< ptr s + len s}"

function StringInSlice_heap_from :: "nat \<Rightarrow> string \<Rightarrow> slice \<Rightarrow> heap \<Rightarrow> int \<times> bool" where
  "StringInSlice_heap_from i a list h =
     (if i < len list then
        (if h (ptr list + i) = a then (int i, True) else StringInSlice_heap_from (i + 1) a list h)
      else (-1, False))"
  by pat_completeness auto
termination
  by (relation "measure (\<lambda>(i, a, list, h). len list - i)") auto

declare StringInSlice_heap_from.simps [simp del]

definition StringInSlice_heap :: "string \<Rightarrow> slice \<Rightarrow> heap \<Rightarrow> int \<times> bool" where
  "StringInSlice_heap a list h = StringInSlice_heap_from 0 a list h"

function RemoveDuplicates_heap_loop ::
  "(string \<rightharpoonup> bool) \<Rightarrow> nat \<Rightarrow> nat \<Rightarrow> slice \<Rightarrow> heap \<Rightarrow> heap \<times> nat" where
  "RemoveDuplicates_heap_loop found j i options h =
     (if i < len options then
        (let x = h (ptr options + i) in
         if \<not> lookup_found found x \<and> x \<noteq> [] then
           RemoveDuplicates_heap_loop (found(x \<mapsto> True)) (j + 1) (i + 1) options
             (h(ptr options + j := h (ptr options + i)))
         else RemoveDuplicates_heap_loop found j (i + 1) options h)
      else (h, j))"
  by pat_completeness auto
termination
  by (relation "measure (\<lambda>(found, j, i, options, h). len options - i)") auto

declare RemoveDuplicates_heap_loop.simps [simp del]

definition RemoveDuplicates_heap :: "slice \<Rightarrow> string list \<Rightarrow> heap \<Rightarrow> heap \<times> slice" where
  "RemoveDuplicates_heap options otherStringsToClean h =
     (case RemoveDuplicates_heap_loop (mark_found otherStringsToClean Map.empty) 0 0 options h of
        (h', j) \<Rightarrow> (h', options\<lparr>len := j\<rparr>))"

section \<open>The file system\<close>

text \<open>
  A path is the list of its elements from the root of the file system, so a path is
  clean and absolute; \<open>filepath.Join(p, name)\<close> with a name read from a directory adds one
  element, and \<open>filepath.Clean\<close> leaves such a path as it is. A file system is a list of
  the paths that exist, each with what is there: a directory, a regular file with its
  content, a symbolic link with its target, or something else (a device, a pipe, a socket).
  Permissions and ownership are not part of the model.
\<close>

type_synonym path = "string list"

datatype node = Dir | File string | Symlink path | Other

type_synonym filesystem = "(path \<times> node) list"

definition Join :: "path \<Rightarrow> string \<Rightarrow> path" where
  "Join p name = p @ [name]"

text \<open>\<open>os.Lstat\<close>: what is at the path itself; the only error is that nothing is there.\<close>

definition Lstat :: "filesystem \<Rightarrow> path \<Rightarrow> error + node" where
  "Lstat fs p = (case map_of fs p of None \<Rightarrow> Inl os_ErrNotExist | Some n \<Rightarrow> Inr n)"

text \<open>
  \<open>os.Stat\<close> and \<open>os.Open\<close> follow a symbolic link at the end of the path, up to 40 links.
\<close>

fun follow :: "nat \<Rightarrow> filesystem \<Rightarrow> path \<Rightarrow> error + path" where
  "follow 0 fs p = Inl (other_error ''too many levels of symbolic links'')"
| "follow (Suc k) fs p =
     (case map_of fs p of Some (Symlink target) \<Rightarrow> follow k fs target | _ \<Rightarrow> Inr p)"

definition Stat :: "filesystem \<Rightarrow> path \<Rightarrow> error + node" where
  "Stat fs p = (case follow 40 fs p of Inl err \<Rightarrow> Inl err | Inr q \<Rightarrow> Lstat fs q)"

text \<open>
  The entries of a directory, sorted by name as \<open>readDirNames\<close> and \<open>ioutil.ReadDir\<close> give
  them, each with what \<open>Lstat\<close> finds there.
\<close>

definition dir_entries :: "filesystem \<Rightarrow> path \<Rightarrow> (string \<times> node) list" where
  "dir_entries fs p =
     sort_key fst (map (\<lambda>(q, n). (last q, n)) (filter (\<lambda>(q, n). q \<noteq> [] \<and> butlast q = p) fs))"

definition open_dir :: "filesystem \<Rightarrow> path \<Rightarrow> error + (string \<times> node) list" where
  "open_dir fs p =
     (case follow 40 fs p of
        Inl err \<Rightarrow> Inl err
      | Inr q \<Rightarrow>
          (case map_of fs q of
             None \<Rightarrow> Inl os_ErrNotExist
           | Some Dir \<Rightarrow> Inr (dir_entries fs q)
           | Some _ \<Rightarrow> Inl (other_error ''not a directory'')))"

definition readDirNames :: "filesystem \<Rightarrow> path \<Rightarrow> error + string list" where
  "readDirNames fs p = (case open_dir fs p of Inl err \<Rightarrow> Inl err | Inr es \<Rightarrow> Inr (map fst es))"

text \<open>\<open>os.Remove\<close> removes a file, a link or an empty directory, not the root.\<close>

definition Remove :: "filesystem \<Rightarrow> path \<Rightarrow> error + filesystem" where
  "Remove fs p =
     (case map_of fs p of
        None \<Rightarrow> Inl os_ErrNotExist
      | Some Dir \<Rightarrow>
          if p = [] then Inl (other_error ''device or resource busy'')
          else if dir_entries fs p \<noteq> [] then Inl (other_error ''directory not empty'')
          else Inr (AList.delete p fs)
      | Some _ \<Rightarrow> Inr (AList.delete p fs))"

subsection \<open>IsDirectoryEmpty\<close>

text \<open>
  \<^verbatim>\<open>f.Readdirnames(1)\<close> gives \<open>io.EOF\<close> on a directory with no entry, which is the answer
  \<open>true\<close>; every other error, of \<open>os.Open\<close> or of \<open>Readdirnames\<close>, is returned.
\<close>

definition IsDirectoryEmpty :: "filesystem \<Rightarrow> path \<Rightarrow> error + bool" where
  "IsDirectoryEmpty fs p =
     (case open_dir fs p of Inl err \<Rightarrow> Inl err | Inr es \<Rightarrow> Inr (es = []))"

subsection \<open>DeleteEmptyFolders\<close>

text \<open>A call returns normally or panics.\<close>

datatype 'a outcome = Normal 'a | Panic error

text \<open>The file system and the two counters the function value given to Walk updates.\<close>

record del_state =
  files :: filesystem
  deletedDirectories :: int
  deletedDirectoriesThisTime :: int

text \<open>
  The function value given to \<open>filepath.Walk\<close>. It always returns a nil error. \<open>fileInfo\<close> is
  nil when Walk could not get it; \<open>fileInfo.IsDir()\<close> then panics.
\<close>

definition walkFn :: "path \<Rightarrow> path \<Rightarrow> node option \<Rightarrow> error option \<Rightarrow> del_state \<Rightarrow> del_state outcome" where
  "walkFn root p fileInfo walkError st =
     (if p = root then Normal st
      else if walkError = Some os_ErrNotExist then Normal st
      else (case fileInfo of
              None \<Rightarrow> Panic (other_error ''nil pointer dereference'')
            | Some info \<Rightarrow>
                if info = Dir then
                  (case IsDirectoryEmpty (files st) p of
                     Inl err \<Rightarrow> Panic err
                   | Inr isEmpty \<Rightarrow>
                       if isEmpty then
                         (case Remove (files st) p of
                            Inr fs' \<Rightarrow>
                              Normal (st\<lparr>files := fs',
                                         deletedDirectories := deletedDirectories st + 1,
                                         deletedDirectoriesThisTime := deletedDirectoriesThisTime st + 1\<rparr>)
                          | Inl err \<Rightarrow> Normal st)
                       else Normal st)
                else Normal st))"

text \<open>
  \<open>filepath.Walk\<close> as the code was written for (its comment on the second visit of a
  directory just removed tells which): \<open>walk\<close> calls the function on the path, then reads
  the names of the directory, calls the function again with the error when that fails,
  and walks each name in turn, with what \<open>Lstat\<close> finds at that moment. Since the function
  never returns an error, the branches of Walk on such an error are left out.
  \<open>Visit p info\<close> is the call \<open>walk(p, info, walkFn)\<close>; \<open>Names p names\<close> is the loop
  \<^verbatim>\<open>for _, name := range names\<close> of that call, from \<open>names\<close> on.
\<close>

datatype walk_task = Visit path node | Names path "string list"

partial_function (option) walk :: "path \<Rightarrow> walk_task \<Rightarrow> del_state \<Rightarrow> del_state outcome option" where
  "walk root task st =
     (case task of
        Visit p info \<Rightarrow>
          (case walkFn root p (Some info) None st of
             Panic e \<Rightarrow> Some (Panic e)
           | Normal st1 \<Rightarrow>
               if info \<noteq> Dir then Some (Normal st1)
               else (case readDirNames (files st1) p of
                       Inl err \<Rightarrow> Some (walkFn root p (Some info) (Some err) st1)
                     | Inr names \<Rightarrow> walk root (Names p names) st1))
      | Names p names \<Rightarrow>
          (case names of
             [] \<Rightarrow> Some (Normal st)
           | name # rest \<Rightarrow>
               (case Lstat (files st) (Join p name) of
                  Inl err \<Rightarrow>
                    (case walkFn root (Join p name) None (Some err) st of
                       Panic e \<Rightarrow> Some (Panic e)
                     | Normal st1 \<Rightarrow> walk root (Names p rest) st1)
                | Inr fileInfo \<Rightarrow>
                    Option.bind (walk root (Visit (Join p name) fileInfo) st)
                      (\<lambda>r. case r of
                              Panic e \<Rightarrow> Some (Panic e)
                            | Normal st1 \<Rightarrow> walk root (Names p rest) st1))))"

declare walk.simps [code]

definition Walk :: "path \<Rightarrow> del_state \<Rightarrow> del_state outcome option" where
  "Walk root st =
     (case Lstat (files st) root of
        Inl err \<Rightarrow> Some (walkFn root root None (Some err) st)
      | Inr info \<Rightarrow> walk root (Visit root info) st)"

text \<open>
  The loop \<^verbatim>\<open>for !atLeastOnce || deletedDirectoriesThisTime != 0\<close>. The error of Walk is nil,
  so is the error DeleteEmptyFolders returns.
\<close>

partial_function (option) DeleteEmptyFolders_loop ::
  "path \<Rightarrow> bool \<Rightarrow> del_state \<Rightarrow> del_state outcome option" where
  "DeleteEmptyFolders_loop root atLeastOnce st =
     (if \<not> atLeastOnce \<or> deletedDirectoriesThisTime st \<noteq> 0 then
        (case Walk root (st\<lparr>deletedDirectoriesThisTime := 0\<rparr>) of
           None \<Rightarrow> None
         | Some (Panic e) \<Rightarrow> Some (Panic e)
         | Some (Normal st1) \<Rightarrow> DeleteEmptyFolders_loop root True st1)
      else Some (Normal st))"

declare DeleteEmptyFolders_loop.simps [code]

definition DeleteEmptyFolders :: "path \<Rightarrow> filesystem \<Rightarrow> (error option \<times> filesystem) outcome option" where
  "DeleteEmptyFolders root fs =
     (case DeleteEmptyFolders_loop root False
             \<lparr>files = fs, deletedDirectories = 0, deletedDirectoriesThisTime = 0\<rparr> of
        None \<Rightarrow> None
      | Some (Panic e) \<Rightarrow> Some (Panic e)
      | Some (Normal st) \<Rightarrow> Some (Normal (None, files st)))"

section \<open>Files and directories (package helpers)\<close>

subsection \<open>DirectoryExists, AbsoluteFileExists, FileExists\<close>

definition DirectoryExists :: "filesystem \<Rightarrow> path \<Rightarrow> bool" where
  "DirectoryExists fs p = (case Stat fs p of Inl err \<Rightarrow> False | Inr info \<Rightarrow> info = Dir)"

definition IsRegular :: "node \<Rightarrow> bool" where
  "IsRegular info = (case info of File content \<Rightarrow> True | _ \<Rightarrow> False)"

definition AbsoluteFileExists :: "filesystem \<Rightarrow> path \<Rightarrow> bool" where
  "AbsoluteFileExists fs p = (case Stat fs p of Inl err \<Rightarrow> False | Inr info \<Rightarrow> IsRegular info)"

text \<open>
  \<open>filepath.IsAbs\<close>: the paths of the model are absolute. \<open>getwd\<close> is what \<open>os.Getwd\<close>
  returns.
\<close>

definition IsAbs :: "path \<Rightarrow> bool" where
  "IsAbs p = True"

definition FileExists :: "error + path \<Rightarrow> filesystem \<Rightarrow> path \<Rightarrow> error + path" where
  "FileExists getwd fs p =
     (case getwd of
        Inl err \<Rightarrow> Inl err
      | Inr currentDir \<Rightarrow>
          (let candidate = (if IsAbs p then p else currentDir @ p)
           in if AbsoluteFileExists fs candidate then Inr candidate else Inl os_ErrNotExist))"

subsection \<open>os.Mkdir and os.MkdirAll\<close>

text \<open>
  \<open>Mkdir\<close> needs the directory above and nothing at the path. \<open>MkdirAll\<close> follows the
  library: nothing to do on a directory, an error on anything else that exists, otherwise
  the directories above first and then \<open>Mkdir\<close>, whose error is dropped when the path is a
  directory after all.
\<close>

definition Mkdir :: "filesystem \<Rightarrow> path \<Rightarrow> error + filesystem" where
  "Mkdir fs p =
     (if map_of fs p \<noteq> None then Inl (other_error ''file exists'')
      else if p = [] then Inl (other_error ''no such file or directory'')
      else (case map_of fs (butlast p) of
              None \<Rightarrow> Inl os_ErrNotExist
            | Some Dir \<Rightarrow> Inr (fs @ [(p, Dir)])
            | Some _ \<Rightarrow> Inl (other_error ''not a directory'')))"

function MkdirAll :: "filesystem \<Rightarrow> path \<Rightarrow> error + filesystem" where
  "MkdirAll fs p =
     (case Stat fs p of
        Inr dir \<Rightarrow> if dir = Dir then Inr fs else Inl (other_error ''not a directory'')
      | Inl err \<Rightarrow>
          (case (if p \<noteq> [] then MkdirAll fs (butlast p) else Inr fs) of
             Inl err \<Rightarrow> Inl err
           | Inr fs1 \<Rightarrow>
               (case Mkdir fs1 p of
                  Inr fs2 \<Rightarrow> Inr fs2
                | Inl err \<Rightarrow> if Lstat fs1 p = Inr Dir then Inr fs1 else Inl err)))"
  by pat_completeness auto
termination
  by (relation "measure (\<lambda>(fs, p). length p)") auto

declare MkdirAll.simps [simp del]

subsection \<open>Paths given as strings\<close>

text \<open>
  \<open>filepath.Join\<close> of a path and a string that may hold separators, \<open>filepath.Ext\<close>,
  \<open>filepath.Base\<close> and \<open>strings.TrimSuffix\<close>.
\<close>

fun split_path :: "string \<Rightarrow> string \<Rightarrow> string list" where
  "split_path elem [] = [elem]"
| "split_path elem (c # cs) =
     (if c = CHR ''/'' then elem # split_path [] cs else split_path (elem @ [c]) cs)"

definition Join_string :: "path \<Rightarrow> string \<Rightarrow> path" where
  "Join_string p s =
     fold (\<lambda>e q. if e = [] \<or> e = ''.'' then q else if e = ''..'' then butlast q else q @ [e])
       (split_path [] s) p"

definition Ext :: "string \<Rightarrow> string" where
  "Ext s =
     (let elem = rev (takeWhile (\<lambda>c. c \<noteq> CHR ''/'') (rev s))
      in if CHR ''.'' \<in> set elem then CHR ''.'' # rev (takeWhile (\<lambda>c. c \<noteq> CHR ''.'') (rev elem))
         else [])"

definition Base :: "string \<Rightarrow> string" where
  "Base s =
     (if s = [] then ''.''
      else (let t = rev (dropWhile (\<lambda>c. c = CHR ''/'') (rev s))
            in if t = [] then ''/'' else rev (takeWhile (\<lambda>c. c \<noteq> CHR ''/'') (rev t))))"

definition TrimSuffix :: "string \<Rightarrow> string \<Rightarrow> string" where
  "TrimSuffix s suf =
     (if length suf \<le> length s \<and> drop (length s - length suf) s = suf
      then take (length s - length suf) s else s)"

subsection \<open>GetUniqueTimestampedFilename\<close>

text \<open>
  \<open>now\<close> is \<^verbatim>\<open>currentTime.Format("2006-01-02 15:04:05")\<close>. The candidate of an attempt:
  \<^verbatim>\<open>fmt.Sprintf("%s - %s%s.tar.gz", now, filenameBase, suffix)\<close>, the suffix being
  \<^verbatim>\<open>fmt.Sprintf("_%d", attempts)\<close> from the second attempt on.
\<close>

definition candidate :: "string \<Rightarrow> string \<Rightarrow> int \<Rightarrow> string" where
  "candidate now filenameBase attempts =
     now @ '' - '' @ filenameBase @ (if attempts > 0 then ''_'' @ Sprintf_d attempts else [])
       @ ''.tar.gz''"

text \<open>
  The loop \<^verbatim>\<open>for !uniqueNameFound || attempts > 50\<close>, with its variables; the value \<open>None\<close>
  is a loop that never ends. The \<open>err\<close> of \<open>FileExists\<close> is a variable of the loop body.
\<close>

partial_function (option) GetUniqueTimestampedFilename_loop ::
  "error + path \<Rightarrow> filesystem \<Rightarrow> string \<Rightarrow> path \<Rightarrow> string \<Rightarrow> bool \<Rightarrow> int \<Rightarrow> path \<Rightarrow> path option" where
  "GetUniqueTimestampedFilename_loop getwd fs now dir filenameBase uniqueNameFound attempts
       uniqueFilename =
     (if \<not> uniqueNameFound \<or> attempts > 50 then
        (case FileExists getwd fs (Join_string dir (candidate now filenameBase attempts)) of
           Inl err \<Rightarrow>
             GetUniqueTimestampedFilename_loop getwd fs now dir filenameBase True attempts
               (Join_string dir (candidate now filenameBase attempts))
         | Inr absolutePath \<Rightarrow>
             GetUniqueTimestampedFilename_loop getwd fs now dir filenameBase uniqueNameFound
               (attempts + 1) uniqueFilename)
      else Some uniqueFilename)"

declare GetUniqueTimestampedFilename_loop.simps [code]

text \<open>
  The function: the path found and the error, with the file system afterwards (the
  directory may have been made). The error is that of \<open>MkdirAll\<close> or nil.
\<close>

definition GetUniqueTimestampedFilename ::
  "error + path \<Rightarrow> string \<Rightarrow> filesystem \<Rightarrow> path \<Rightarrow> string
     \<Rightarrow> ((path \<times> error option) \<times> filesystem) option" where
  "GetUniqueTimestampedFilename getwd now fs dir filename =
     (case (if \<not> DirectoryExists fs dir then MkdirAll fs dir else Inr fs) of
        Inl err \<Rightarrow> Some (([], Some err), fs)
      | Inr fs1 \<Rightarrow>
          (let ext = Ext filename;
               filenameBase = TrimSuffix (Base filename) ext
           in case GetUniqueTimestampedFilename_loop getwd fs1 now dir filenameBase False 0 [] of
                None \<Rightarrow> None
              | Some uniqueFilename \<Rightarrow> Some ((uniqueFilename, None), fs1)))"

subsection \<open>CopyFile\<close>

text \<open>
  \<open>ioutil.ReadDir\<close> gives the entries of a directory sorted by name, and \<open>os.SameFile\<close> tells
  whether two paths lead to the same file. Reading and writing a file do not fail in the
  model once the file is open.
\<close>

definition ReadDir :: "filesystem \<Rightarrow> path \<Rightarrow> error + (string \<times> node) list" where
  "ReadDir fs p = open_dir fs p"

definition SameFile :: "filesystem \<Rightarrow> path \<Rightarrow> path \<Rightarrow> bool" where
  "SameFile fs p q = (follow 40 fs p = follow 40 fs q)"

text \<open>
  \<open>copyFileContents\<close>: \<open>os.Open\<close> of the source, \<open>os.Create\<close> of the destination (made, or
  emptied when it is a file already; its directory must exist), then \<open>io.Copy\<close>.
\<close>

definition copyFileContents :: "filesystem \<Rightarrow> path \<Rightarrow> path \<Rightarrow> error option \<times> filesystem" where
  "copyFileContents fs src dst =
     (case Stat fs src of
        Inl err \<Rightarrow> (Some err, fs)
      | Inr info \<Rightarrow>
          (case info of
             File content \<Rightarrow>
               (case follow 40 fs dst of
                  Inl err \<Rightarrow> (Some err, fs)
                | Inr out \<Rightarrow>
                    (case map_of fs out of
                       Some (File old) \<Rightarrow> (None, AList.update out (File content) fs)
                     | Some _ \<Rightarrow> (Some (other_error ''is a directory''), fs)
                     | None \<Rightarrow>
                         if out \<noteq> [] \<and> map_of fs (butlast out) = Some Dir
                         then (None, AList.update out (File content) fs)
                         else (Some os_ErrNotExist, fs)))
           | _ \<Rightarrow> (Some (other_error ''is a directory''), fs)))"

definition CopyFile :: "filesystem \<Rightarrow> path \<Rightarrow> path \<Rightarrow> error option \<times> filesystem" where
  "CopyFile fs src dst =
     (case Stat fs src of
        Inl err \<Rightarrow> (Some err, fs)
      | Inr sfi \<Rightarrow>
          if \<not> IsRegular sfi then (Some (other_error ''CopyFile: non-regular source file''), fs)
          else (case Stat fs dst of
                  Inl err \<Rightarrow>
                    if err \<noteq> os_ErrNotExist then (Some err, fs)
                    else copyFileContents fs src dst
                | Inr dfi \<Rightarrow>
                    if \<not> IsRegular dfi
                    then (Some (other_error ''CopyFile: non-regular destination file''), fs)
                    else if SameFile fs src dst then (None, fs)
                    else copyFileContents fs src dst))"

subsection \<open>CopyDir\<close>

text \<open>\<^verbatim>\<open>entry.Mode()&os.ModeSymlink != 0\<close>\<close>

definition IsSymlink :: "node \<Rightarrow> bool" where
  "IsSymlink info = (case info of Symlink target \<Rightarrow> True | _ \<Rightarrow> False)"

text \<open>
  \<open>Copy src dst\<close> is the call \<open>CopyDir(src, dst)\<close>; \<open>Entries src dst entries\<close> is its loop
  \<^verbatim>\<open>for _, entry := range entries\<close>, from \<open>entries\<close> on. The result is the error returned and
  the file system afterwards; \<open>None\<close> is a call that never returns (a destination inside
  the source makes the recursion go on, in the model without an end).
\<close>

datatype copy_task = Copy path path | Entries path path "(string \<times> node) list"

partial_function (option) copy :: "copy_task \<Rightarrow> filesystem \<Rightarrow> (error option \<times> filesystem) option" where
  "copy task fs =
     (case task of
        Copy src dst \<Rightarrow>
          (case Stat fs src of
             Inl err \<Rightarrow> Some (Some err, fs)
           | Inr si \<Rightarrow>
               if si \<noteq> Dir then Some (Some (errors_New ''source is not a directory''), fs)
               else (case Stat fs dst of
                       Inr di \<Rightarrow> Some (Some (errors_New ''destination already exists''), fs)
                     | Inl err \<Rightarrow>
                         if err \<noteq> os_ErrNotExist then Some (Some err, fs)
                         else (case MkdirAll fs dst of
                                 Inl err \<Rightarrow> Some (Some err, fs)
                               | Inr fs1 \<Rightarrow>
                                   (case ReadDir fs1 src of
                                      Inl err \<Rightarrow> Some (Some err, fs1)
                                    | Inr entries \<Rightarrow> copy (Entries src dst entries) fs1))))
      | Entries src dst entries \<Rightarrow>
          (case entries of
             [] \<Rightarrow> Some (None, fs)
           | (name, info) # rest \<Rightarrow>
               if info = Dir then
                 Option.bind (copy (Copy (Join src name) (Join dst name)) fs)
                   (\<lambda>(err, fs1). case err of
                                    Some e \<Rightarrow> Some (Some e, fs1)
                                  | None \<Rightarrow> copy (Entries src dst rest) fs1)
               else if IsSymlink info then copy (Entries src dst rest) fs
               else (case CopyFile fs (Join src name) (Join dst name) of
                       (Some e, fs1) \<Rightarrow> Some (Some e, fs1)
                     | (None, fs1) \<Rightarrow> copy (Entries src dst rest) fs1)))"

declare copy.simps [code]

definition CopyDir :: "filesystem \<Rightarrow> path \<Rightarrow> path \<Rightarrow> (error option \<times> filesystem) option" where
  "CopyDir fs src dst = copy (Copy src dst) fs"

section \<open>Properties of the string-slice helpers\<close>

text \<open>
  What the second loop computes, without the array: the elements that are new and not
  empty, in order, each marked as found when it is kept.
\<close>

fun keep_new :: "(string \<rightharpoonup> bool) \<Rightarrow> string list \<Rightarrow> string list" where
  "keep_new found [] = []"
| "keep_new found (x # xs) =
     (if \<not> lookup_found found x \<and> x \<noteq> [] then x # keep_new (found(x \<mapsto> True)) xs
      else keep_new found xs)"

lemma loop_keep_new:
  "j \<le> i \<Longrightarrow> i \<le> length arr \<Longrightarrow>
   (case RemoveDuplicates_loop found j i arr of
      (arr', j') \<Rightarrow> take j' arr' = take j arr @ keep_new found (drop i arr))"
proof (induction found j i arr rule: RemoveDuplicates_loop.induct)
  case (1 found j i arr)
  show ?case
  proof (cases "i < length arr")
    case False
    with "1.prems" show ?thesis by (subst RemoveDuplicates_loop.simps) simp
  next
    case True
    note lt = this
    have dr: "drop i arr = arr ! i # drop (Suc i) arr"
      using lt by (simp add: Cons_nth_drop_Suc)
    show ?thesis
    proof (cases "\<not> lookup_found found (arr ! i) \<and> arr ! i \<noteq> []")
      case True
      have jl: "j < length arr" using lt "1.prems" by simp
      have t: "take (Suc j) (arr[j := arr ! i]) = take j arr @ [arr ! i]"
        using jl by (simp add: take_Suc_conv_app_nth)
      have d: "drop (Suc i) (arr[j := arr ! i]) = drop (Suc i) arr"
        using "1.prems" by simp
      have ih: "(case RemoveDuplicates_loop (found(arr ! i \<mapsto> True)) (j + 1) (i + 1) (arr[j := arr ! i]) of
          (arr', j') \<Rightarrow> take j' arr' = take (j + 1) (arr[j := arr ! i]) @
             keep_new (found(arr ! i \<mapsto> True)) (drop (i + 1) (arr[j := arr ! i])))"
        using "1.IH"(1)[OF lt refl True] "1.prems" lt by (simp add: fun_upd_def)
      show ?thesis
        using ih True lt by (subst RemoveDuplicates_loop.simps) (simp add: t d dr Let_def)
    next
      case False
      have ih: "(case RemoveDuplicates_loop found j (i + 1) arr of
          (arr', j') \<Rightarrow> take j' arr' = take j arr @ keep_new found (drop (i + 1) arr))"
        using "1.IH"(2)[OF lt refl False] "1.prems" lt by simp
      show ?thesis
        using ih False lt by (subst RemoveDuplicates_loop.simps) (auto simp add: dr Let_def)
    qed
  qed
qed

lemma lookup_mark_found:
  "lookup_found (mark_found ss found) x = (x \<in> set ss \<or> lookup_found found x)"
  by (induction ss arbitrary: found) (auto simp: lookup_found_def)

lemma RemoveDuplicates_keep_new:
  "RemoveDuplicates xs others = keep_new (mark_found others Map.empty) xs"
  using loop_keep_new[of 0 0 xs "mark_found others Map.empty"]
  by (simp add: RemoveDuplicates_def split: prod.splits)

lemma lookup_found_upd:
  "lookup_found (found(x \<mapsto> True)) y = (y = x \<or> lookup_found found y)"
  by (simp add: lookup_found_def)

lemma set_keep_new:
  "set (keep_new found xs) = {x \<in> set xs. \<not> lookup_found found x \<and> x \<noteq> []}"
  by (induction xs arbitrary: found) (auto simp: lookup_found_upd)

lemma distinct_keep_new: "distinct (keep_new found xs)"
  by (induction xs arbitrary: found) (auto simp: set_keep_new lookup_found_upd)

lemma subseq_keep_new: "subseq (keep_new found xs) xs"
  by (induction xs arbitrary: found) auto

lemma keep_new_first_occurrences:
  "keep_new found xs =
     map (\<lambda>i. xs ! i)
       (filter (\<lambda>i. \<not> lookup_found found (xs ! i) \<and> xs ! i \<noteq> [] \<and> xs ! i \<notin> set (take i xs))
          [0..<length xs])"
proof (induction xs arbitrary: found)
  case Nil
  show ?case by simp
next
  case (Cons x xs)
  have up: "[0..<length (x # xs)] = 0 # map Suc [0..<length xs]"
    by (simp add: upt_conv_Cons map_Suc_upt del: upt_Suc)
  show ?case
  proof (cases "\<not> lookup_found found x \<and> x \<noteq> []")
    case True
    have f: "filter (\<lambda>i. \<not> lookup_found (found(x \<mapsto> True)) (xs ! i) \<and> xs ! i \<noteq> [] \<and>
                 xs ! i \<notin> set (take i xs)) [0..<length xs]
           = filter (\<lambda>i. \<not> lookup_found found (xs ! i) \<and> xs ! i \<noteq> [] \<and>
                 xs ! i \<noteq> x \<and> xs ! i \<notin> set (take i xs)) [0..<length xs]"
      by (rule filter_cong) (auto simp: lookup_found_upd)
    have k: "keep_new (found(x \<mapsto> True)) xs =
        map (\<lambda>i. xs ! i) (filter (\<lambda>i. \<not> lookup_found found (xs ! i) \<and> xs ! i \<noteq> [] \<and>
                 xs ! i \<noteq> x \<and> xs ! i \<notin> set (take i xs)) [0..<length xs])"
      unfolding Cons.IH[of "found(x \<mapsto> True)"] f ..
    show ?thesis
      using True by (simp only: up) (simp add: k filter_map comp_def)
  next
    case False
    have f: "filter (\<lambda>i. \<not> lookup_found found (xs ! i) \<and> xs ! i \<noteq> [] \<and>
                 xs ! i \<notin> set (take i xs)) [0..<length xs]
           = filter (\<lambda>i. \<not> lookup_found found (xs ! i) \<and> xs ! i \<noteq> [] \<and>
                 xs ! i \<noteq> x \<and> xs ! i \<notin> set (take i xs)) [0..<length xs]"
      using False by (intro filter_cong) auto
    have k: "keep_new found xs =
        map (\<lambda>i. xs ! i) (filter (\<lambda>i. \<not> lookup_found found (xs ! i) \<and> xs ! i \<noteq> [] \<and>
                 xs ! i \<noteq> x \<and> xs ! i \<notin> set (take i xs)) [0..<length xs])"
      unfolding Cons.IH[of found] f ..
    show ?thesis
      using False by (simp only: up) (auto simp add: k filter_map comp_def)
  qed
qed

text \<open>
  C5. For every list and every extra strings to clean, the list RemoveDuplicates leaves has
  no element twice and is a subsequence of the original; it is made of the elements at the
  positions of first occurrences (of the non-empty strings that are not among the extra
  ones), in the order of these positions.
\<close>

theorem RemoveDuplicates_distinct_subseq_first:
  "distinct (RemoveDuplicates xs others) \<and>
   subseq (RemoveDuplicates xs others) xs \<and>
   RemoveDuplicates xs others =
     map (\<lambda>i. xs ! i)
       (filter (\<lambda>i. xs ! i \<notin> set others \<and> xs ! i \<noteq> [] \<and> xs ! i \<notin> set (take i xs))
          [0..<length xs])"
proof -
  have e: "\<And>y. lookup_found (mark_found others Map.empty) y = (y \<in> set others)"
    unfolding lookup_mark_found by (simp add: lookup_found_def)
  have d: "distinct (RemoveDuplicates xs others)"
    unfolding RemoveDuplicates_keep_new by (rule distinct_keep_new)
  have s: "subseq (RemoveDuplicates xs others) xs"
    unfolding RemoveDuplicates_keep_new by (rule subseq_keep_new)
  have f: "RemoveDuplicates xs others =
     map (\<lambda>i. xs ! i)
       (filter (\<lambda>i. xs ! i \<notin> set others \<and> xs ! i \<noteq> [] \<and> xs ! i \<notin> set (take i xs))
          [0..<length xs])"
    unfolding RemoveDuplicates_keep_new keep_new_first_occurrences[of "mark_found others Map.empty" xs] e ..
  from d s f show ?thesis by blast
qed

text \<open>
  C9. RemoveDuplicates removes more than duplicates: the empty string never stays, and no
  string given in otherStringsToClean stays, however often it occurs; every other element
  of the list stays.
\<close>

theorem RemoveDuplicates_drops_empty_and_others:
  "[] \<notin> set (RemoveDuplicates xs others) \<and>
   set (RemoveDuplicates xs others) \<inter> set others = {} \<and>
   set (RemoveDuplicates xs others) = set xs - set others - {[]}"
proof -
  have e: "\<And>y. lookup_found (mark_found others Map.empty) y = (y \<in> set others)"
    unfolding lookup_mark_found by (simp add: lookup_found_def)
  have s: "set (RemoveDuplicates xs others) = {x \<in> set xs. x \<notin> set others \<and> x \<noteq> []}"
    unfolding RemoveDuplicates_keep_new by (simp add: set_keep_new e)
  show ?thesis unfolding s by auto
qed

section \<open>Properties of the user interface\<close>

subsection \<open>Strings of ASCII bytes\<close>

definition ascii :: "string \<Rightarrow> bool" where
  "ascii s = list_all (\<lambda>c. (of_char c :: nat) < 0x80) s"

lemma DecodeRuneInString_ascii:
  "(of_char c :: nat) < 0x80 \<Longrightarrow> DecodeRuneInString (c # s) = (of_char c, 1)"
  by (simp add: DecodeRuneInString_def)

lemma TrimLeftFunc_ascii:
  "ascii s \<Longrightarrow> TrimLeftFunc s f = dropWhile (\<lambda>c. f (of_char c)) s"
proof (induction s)
  case Nil
  show ?case by (simp add: TrimLeftFunc.simps)
next
  case (Cons c s)
  then show ?case
    by (subst TrimLeftFunc.simps) (simp add: ascii_def DecodeRuneInString_ascii)
qed

lemma lastIndexFunc_ascii:
  "ascii s \<Longrightarrow>
   lastIndexFunc s f False = int (length (rev (dropWhile (\<lambda>c. f (of_char c)) (rev s)))) - 1"
proof (induction s rule: rev_induct)
  case Nil
  show ?case by (simp add: lastIndexFunc.simps)
next
  case (snoc c s)
  have a: "(of_char c :: nat) < 0x80" "ascii s"
    using snoc.prems by (simp_all add: ascii_def)
  have d: "DecodeLastRuneInString (s @ [c]) = (of_char c, 1)"
    using a by (simp add: DecodeLastRuneInString_def)
  show ?case
    using snoc.IH[OF a(2)] d by (subst lastIndexFunc.simps) simp
qed

lemma TrimRightFunc_ascii:
  assumes "ascii s"
  shows "TrimRightFunc s f = rev (dropWhile (\<lambda>c. f (of_char c)) (rev s))"
proof -
  let ?t = "rev (dropWhile (\<lambda>c. f (of_char c)) (rev s))"
  have i: "lastIndexFunc s f False = int (length ?t) - 1"
    using assms by (rule lastIndexFunc_ascii)
  have p: "take (length ?t) s = ?t"
  proof -
    have "rev s = takeWhile (\<lambda>c. f (of_char c)) (rev s) @ dropWhile (\<lambda>c. f (of_char c)) (rev s)"
      by simp
    then have "s = ?t @ rev (takeWhile (\<lambda>c. f (of_char c)) (rev s))"
      by (metis rev_append rev_rev_ident)
    then show ?thesis by (metis append_eq_conv_conj)
  qed
  have l: "length ?t \<le> length s"
    by (metis p length_take min.cobounded2 min.commute)
  show ?thesis
  proof (cases "?t = []")
    case True
    have "lastIndexFunc s f False = - 1" using i True by simp
    then have "TrimRightFunc s f = []" by (simp add: TrimRightFunc_def)
    then show ?thesis using True by simp
  next
    case False
    then have "0 < length ?t" by blast
    then have n: "nat (int (length ?t) - 1) < length s"
      and m: "nat (int (length ?t) - 1 + 1) = length ?t"
      using l by linarith+
    have "(of_char (s ! nat (int (length ?t) - 1)) :: nat) < 0x80"
      using assms n by (simp add: ascii_def list_all_length)
    then show ?thesis
      using i p m False by (simp add: TrimRightFunc_def Let_def)
  qed
qed

lemma ascii_dropWhile: "ascii s \<Longrightarrow> ascii (dropWhile P s)"
  by (induction s) (auto simp: ascii_def)

text \<open>On a string of ASCII bytes, TrimSpace drops the white-space bytes at both ends.\<close>

lemma TrimSpace_ascii:
  "ascii s \<Longrightarrow>
   TrimSpace s = rev (dropWhile (\<lambda>c. unicode_IsSpace (of_char c))
                   (rev (dropWhile (\<lambda>c. unicode_IsSpace (of_char c)) s)))"
  by (simp add: TrimSpace_def TrimLeftFunc_ascii TrimRightFunc_ascii ascii_dropWhile)

subsection \<open>Tag and unTag\<close>

lemma Replace_absent: "\<not> Contains s old \<Longrightarrow> Replace s old = s"
  by (induction s old rule: Replace.induct) auto

lemma Replace_prefix: "old \<noteq> [] \<Longrightarrow> Replace (old @ s) old = Replace s old"
  by (cases old) (auto simp: HasPrefix_def)

lemma Contains_Nil: "Contains s []"
  by (cases s) (auto simp: HasPrefix_def)

text \<open>
  C10. Tag and unTag round-trip: for an entry that contains neither rendered tag,
  \<open>unTag (Tag entry isLocal)\<close> is the entry with the surrounding white space trimmed.
  The renderings are parameters; for an online entry the rendered local tag must not
  occur in the rendered online tag followed by the entry (it is removed first), which the
  first hypothesis gives for every occurrence that lies within the entry.
\<close>

theorem unTag_Tag:
  assumes "\<not> Contains entry (CyanBold ui LocalTag)"
    and "\<not> Contains entry (YellowBold ui OnlineTag)"
    and "\<not> isLocal \<longrightarrow> \<not> Contains (YellowBold ui OnlineTag @ entry) (CyanBold ui LocalTag)"
  shows "unTag ui (Tag ui entry isLocal) = TrimSpace entry"
proof (cases isLocal)
  case True
  have ne: "CyanBold ui LocalTag \<noteq> []" using assms(1) Contains_Nil by auto
  show ?thesis
    using True assms(1,2) by (simp add: unTag_def Tag_def Replace_prefix[OF ne] Replace_absent)
next
  case False
  have ne: "YellowBold ui OnlineTag \<noteq> []" using assms(2) Contains_Nil by auto
  have "Replace (YellowBold ui OnlineTag @ entry) (CyanBold ui LocalTag) = YellowBold ui OnlineTag @ entry"
    using False assms(3) by (simp add: Replace_absent)
  then show ?thesis
    using False assms(2) by (simp add: unTag_def Tag_def Replace_prefix[OF ne] Replace_absent)
qed

text \<open>A receiver whose colour methods wrap the text in ANSI escape sequences.\<close>

definition ansi_ui :: UI where
  "ansi_ui = \<lparr>CyanBold = (\<lambda>s. [CHR 0x1B] @ ''[1;36m'' @ s @ [CHR 0x1B] @ ''[0m''),
              YellowBold = (\<lambda>s. [CHR 0x1B] @ ''[1;33m'' @ s @ [CHR 0x1B] @ ''[0m'')\<rparr>"

theorem unTag_Tag_witness:
  "unTag ansi_ui (Tag ansi_ui '' Dune  '' False) = ''Dune'' \<and>
   unTag ansi_ui (Tag ansi_ui '' Dune  '' True) = ''Dune''"
proof -
  have 1: "\<not> Contains '' Dune  '' (CyanBold ansi_ui LocalTag)"
    by (simp add: ansi_ui_def LocalTag_def HasPrefix_def)
  have 2: "\<not> Contains '' Dune  '' (YellowBold ansi_ui OnlineTag)"
    by (simp add: ansi_ui_def OnlineTag_def HasPrefix_def)
  have 3: "\<not> Contains (YellowBold ansi_ui OnlineTag @ '' Dune  '') (CyanBold ansi_ui LocalTag)"
    by (simp add: ansi_ui_def OnlineTag_def LocalTag_def HasPrefix_def)
  have t: "TrimSpace '' Dune  '' = ''Dune''"
    by (simp add: TrimSpace_ascii ascii_def unicode_IsSpace_def)
  show ?thesis
    using unTag_Tag[OF 1 2, of False] unTag_Tag[OF 1 2, of True] 3 t by simp
qed


subsection \<open>The choices of SelectOption\<close>

text \<open>On a string of ASCII bytes the runes are the bytes.\<close>

lemma runes_ascii: "\<forall>c \<in> set s. (of_char c :: nat) < 0x80 \<Longrightarrow> runes s = map of_char s"
proof (induction s)
  case Nil
  show ?case by (simp add: runes.simps)
next
  case (Cons c s)
  have "DecodeRuneInString (c # s) = (of_char c, 1)"
    using Cons.prems by (simp add: DecodeRuneInString_def)
  then show ?case
    using Cons by (subst runes.simps) simp
qed

lemma ToUpper_unchanged:
  assumes "\<forall>c \<in> set s. (of_char c :: nat) < 0x61"
  shows "ToUpper s = s"
proof -
  have r: "runes s = map of_char s"
    using assms by (intro runes_ascii) force
  have "concat (map (\<lambda>c. EncodeRune (unicode_ToUpper c)) (map of_char t)) = t"
    if "\<forall>c \<in> set t. (of_char c :: nat) < 0x61" for t :: string
    using that by (induction t) (auto simp: unicode_ToUpper_def EncodeRune_def)
  then show ?thesis
    using assms by (simp add: ToUpper_def Map_def r)
qed

lemma digits_val_chars: "digits_val n s = Some m \<Longrightarrow> set s \<subseteq> set ''0123456789''"
proof (induction s arbitrary: n)
  case Nil
  show ?case by simp
next
  case (Cons c s)
  then obtain d where d: "digit_val c = Some d" and r: "digits_val (n * 10 + d) s = Some m"
    by (auto split: option.splits)
  have "c \<in> set ''0123456789''"
    using d by (auto simp: digit_val_def split: if_splits)
  then show ?case
    using Cons.IH[OF r] by simp
qed

lemma Atoi_chars:
  assumes "Atoi s = Some i"
  shows "\<forall>c \<in> set s. (of_char c :: nat) < 0x61"
proof -
  have p: "(of_char c :: nat) < 0x61" if "c \<in> set ''+-0123456789''" for c
    using that by auto
  let ?s1 = "if s \<noteq> [] \<and> (hd s = CHR ''-'' \<or> hd s = CHR ''+'') then tl s else s"
  obtain n where n: "digits_val 0 ?s1 = Some n"
    using assms by (auto simp: Atoi_def Let_def split: if_splits option.splits)
  have d: "set ?s1 \<subseteq> set ''0123456789''"
    using n by (rule digits_val_chars)
  have "set s \<subseteq> insert CHR ''-'' (insert CHR ''+'' (set ?s1))"
    by (cases s) auto
  then have "set s \<subseteq> insert CHR ''-'' (insert CHR ''+'' (set ''0123456789''))"
    using d by blast
  then have "set s \<subseteq> set ''+-0123456789''"
    by (simp add: insert_commute)
  then show ?thesis using p by blast
qed

lemma ToUpper_letters:
  "ToUpper ''a'' = ''A''" "ToUpper ''A'' = ''A''" "ToUpper ''b'' = ''B''" "ToUpper ''B'' = ''B''"
  by code_simp+

lemma Atoi_not_letter:
  assumes "Atoi choice = Some i"
  shows "ToUpper choice \<noteq> ''E'' \<and> ToUpper choice \<noteq> ''A'' \<and> ToUpper choice \<noteq> ''B''"
proof -
  have "Atoi s = None" if "s \<in> {''E'', ''A'', ''B''}" for s
    using that by (auto simp: Atoi_def digit_val_def)
  moreover have "ToUpper choice = choice"
    using Atoi_chars[OF assms] by (rule ToUpper_unchanged)
  ultimately show ?thesis
    using assms by fastforce
qed

lemma SelectOption_loop_number:
  assumes "GetInput e = ((choice, None), e1)"
    and "Atoi choice = Some i" "1 \<le> i" "i \<le> int (length options)"
  shows "SelectOption_loop ui options longField errs e =
           Some ((unTag ui (options ! nat (i - 1)), None), e1)"
  using assms Atoi_not_letter[OF assms(2)]
  by (subst SelectOption_loop.simps) (simp add: SelectOption_choice_def)

lemma SelectOption_loop_blank:
  assumes "GetInput e = ((choice, None), e1)" and "choice = ''B'' \<or> choice = ''b''"
  shows "SelectOption_loop ui options longField errs e = Some (([], None), e1)"
  using assms
  by (subst SelectOption_loop.simps) (auto simp add: SelectOption_choice_def ToUpper_letters)

lemma SelectOption_loop_abort:
  assumes "GetInput e = ((choice, None), e1)" and "choice = ''A'' \<or> choice = ''a''"
  shows "SelectOption_loop ui options longField errs e = Some (([], Some (errors_New userAborted)), e1)"
  using assms
  by (subst SelectOption_loop.simps) (auto simp add: SelectOption_choice_def ToUpper_letters)

text \<open>
  The iterations of the loop of SelectOption that do not return: the choice read is not
  accepted, or it is a manual edit that is not confirmed. \<open>SelectOption_retried n e\<close> is
  the environment after \<open>n\<close> such iterations from \<open>e\<close>, and \<open>None\<close> when one of the \<open>n\<close>
  iterations returns.
\<close>

fun SelectOption_retried :: "UI \<Rightarrow> string list \<Rightarrow> bool \<Rightarrow> nat \<Rightarrow> env \<Rightarrow> env option" where
  "SelectOption_retried ui options longField 0 e = Some e"
| "SelectOption_retried ui options longField (Suc n) e =
     (case GetInput e of
        ((choice, Some err), e1) \<Rightarrow> None
      | ((choice, None), e1) \<Rightarrow>
          (case SelectOption_choice ui options longField choice e1 of
             (Some r, e') \<Rightarrow> None
           | (None, e') \<Rightarrow> SelectOption_retried ui options longField n e'))"

lemma SelectOption_retried_add:
  "SelectOption_retried ui options longField (n + m) e =
     (case SelectOption_retried ui options longField n e of
        None \<Rightarrow> None
      | Some e1 \<Rightarrow> SelectOption_retried ui options longField m e1)"
  by (induction n arbitrary: e) (auto split: prod.splits option.splits)

text \<open>The error count goes up by one at each of these iterations, and is never reset.\<close>

lemma SelectOption_loop_retried:
  "SelectOption_retried ui options longField n e = Some e' \<Longrightarrow> errs + int n \<le> 10 \<Longrightarrow>
   SelectOption_loop ui options longField errs e =
     SelectOption_loop ui options longField (errs + int n) e'"
proof (induction n arbitrary: errs e)
  case 0
  then show ?case by simp
next
  case (Suc n)
  obtain choice scanErr e1 where g: "GetInput e = ((choice, scanErr), e1)"
    by (cases "GetInput e") auto
  obtain r e2 where c: "SelectOption_choice ui options longField choice e1 = (r, e2)"
    by (cases "SelectOption_choice ui options longField choice e1")
  from Suc.prems(1) g c have s: "scanErr = None" and r: "r = None"
    and rest: "SelectOption_retried ui options longField n e2 = Some e'"
    by (auto split: option.splits)
  have "SelectOption_loop ui options longField errs e =
          SelectOption_loop ui options longField (errs + 1) e2"
    using g s c r Suc.prems(2) by (subst SelectOption_loop.simps) simp
  also have "\<dots> = SelectOption_loop ui options longField (errs + 1 + int n) e'"
    using Suc.prems(2) by (intro Suc.IH[OF rest]) simp
  finally show ?case by (simp add: algebra_simps)
qed

lemma SelectOption_loop_eleventh:
  assumes "SelectOption_retried ui options longField 1 e = Some e'"
  shows "SelectOption_loop ui options longField 10 e =
           Some (([], Some (errors_New invalidChoice)), e')"
proof -
  obtain choice scanErr e1 where g: "GetInput e = ((choice, scanErr), e1)"
    by (cases "GetInput e") auto
  obtain r e2 where c: "SelectOption_choice ui options longField choice e1 = (r, e2)"
    by (cases "SelectOption_choice ui options longField choice e1")
  from assms g c have "scanErr = None" "r = None" "e2 = e'"
    by (auto split: option.splits)
  then show ?thesis
    using g c by (subst SelectOption_loop.simps) simp
qed

text \<open>
  C4. In SelectOption, with the duplicates removed from the options, at any iteration of
  the loop (after \<open>n\<close> iterations that did not return, \<open>n\<close> from 0 to 10): when the line
  read (without error) is a number \<open>i\<close> with \<open>1 \<le> i \<le> len(options)\<close>, the result is the
  untagged text of \<open>options[i-1]\<close> and a nil error; when it is \<open>B\<close> or \<open>b\<close>, the empty
  string and a nil error; when it is \<open>A\<close> or \<open>a\<close>, the empty string and the error
  "User aborted.".
\<close>

theorem SelectOption_choices:
  assumes "SelectOption_retried ui (RemoveDuplicates options []) longField n e = Some e'"
    and "n \<le> 10"
    and "GetInput e' = ((choice, None), e1)"
  shows "(\<forall>i. Atoi choice = Some i \<and> 1 \<le> i \<and> i \<le> int (length (RemoveDuplicates options [])) \<longrightarrow>
            SelectOption ui title usage options longField e =
              Some ((unTag ui (RemoveDuplicates options [] ! nat (i - 1)), None), e1)) \<and>
         (choice = ''B'' \<or> choice = ''b'' \<longrightarrow>
            SelectOption ui title usage options longField e = Some (([], None), e1)) \<and>
         (choice = ''A'' \<or> choice = ''a'' \<longrightarrow>
            SelectOption ui title usage options longField e =
              Some (([], Some (errors_New userAborted)), e1))"
proof -
  have "SelectOption ui title usage options longField e =
          SelectOption_loop ui (RemoveDuplicates options []) longField (int n) e'"
    unfolding SelectOption_def
    using SelectOption_loop_retried[OF assms(1), of 0] assms(2) by simp
  then show ?thesis
    using SelectOption_loop_number[OF assms(3)] SelectOption_loop_blank[OF assms(3)]
      SelectOption_loop_abort[OF assms(3)]
    by simp
qed

text \<open>A standard input at its end: every read gives \<open>io.EOF\<close>.\<close>

definition eof_stdin :: "(string \<times> error option) stream" where
  "eof_stdin = sconst ([], Some io_EOF)"

text \<open>The lines a user types, each read without error, and then the end of the input.\<close>

definition typed :: "string list \<Rightarrow> env" where
  "typed ls = \<lparr>stdin = map (\<lambda>l. (l @ [CHR 0x0A], None)) ls @- eof_stdin, editor = sconst (Inr [])\<rparr>"

lemma GetInput_typed:
  "GetInput (typed (l # ls)) = ((TrimSpace (l @ [CHR 0x0A]), None), typed ls)"
  by (simp add: GetInput_def typed_def)

lemma TrimSpace_lines:
  "TrimSpace [CHR ''x'', CHR 0x0A] = ''x''" "TrimSpace [CHR '' '', CHR ''2'', CHR 0x0A] = ''2''"
  "TrimSpace [CHR ''b'', CHR 0x0A] = ''b''" "TrimSpace [CHR ''A'', CHR 0x0A] = ''A''"
  "TrimSpace [CHR ''e'', CHR 0x0A] = ''e''" "TrimSpace [CHR ''n'', CHR 0x0A] = ''n''"
  "TrimSpace (''new value'' @ [CHR 0x0A]) = ''new value''"
  by (simp_all add: TrimSpace_ascii ascii_def unicode_IsSpace_def)

lemma ToUpper_lines:
  "ToUpper ''x'' = ''X''" "ToUpper ''e'' = ''E''"
  by code_simp+

lemma ToLower_lines:
  "ToLower ''x'' = ''x''" "ToLower ''e'' = ''e''"
  by code_simp+

lemma Atoi_lines: "Atoi ''x'' = None" "Atoi ''2'' = Some 2"
  by (simp_all add: Atoi_def digit_val_def)

text \<open>
  Two iterations that do not return: the choice \<open>x\<close>, and a manual edit that the user
  does not confirm.
\<close>

lemma SelectOption_retried_x:
  "SelectOption_retried ui options False (Suc n) (typed (''x'' # ls)) =
     SelectOption_retried ui options False n (typed ls)"
  by (simp add: GetInput_typed TrimSpace_lines[simplified] SelectOption_choice_def ToUpper_lines
      Atoi_lines)

lemma SelectOption_retried_edit:
  "SelectOption_retried ui options False (Suc n) (typed (''e'' # ''new value'' # ''n'' # ls)) =
     SelectOption_retried ui options False n (typed ls)"
  by (simp add: GetInput_typed TrimSpace_lines[simplified] SelectOption_choice_def ToUpper_lines
      Accept_def)

theorem SelectOption_choices_witness:
  "SelectOption ansi_ui ''Title'' [] [''Dune'', Tag ansi_ui ''Emma'' True, ''Dune''] False
      (typed [''x'', ''e'', ''new value'', ''n'', '' 2'']) = Some ((''Emma'', None), typed []) \<and>
   SelectOption ansi_ui ''Title'' [] [''Dune''] False (typed [''x'', ''b''])
     = Some (([], None), typed []) \<and>
   SelectOption ansi_ui ''Title'' [] [''Dune''] False (typed [''A''])
     = Some (([], Some (errors_New userAborted)), typed [])"
proof -
  let ?opts = "[''Dune'', Tag ansi_ui ''Emma'' True, ''Dune'']"
  have r2: "SelectOption_retried ansi_ui (RemoveDuplicates ?opts []) False 2
              (typed [''x'', ''e'', ''new value'', ''n'', '' 2'']) = Some (typed ['' 2''])"
    by (simp add: numeral_2_eq_2 SelectOption_retried_x SelectOption_retried_edit
        del: SelectOption_retried.simps(2))
  have r1: "SelectOption_retried ansi_ui (RemoveDuplicates [''Dune''] []) False 1
              (typed [''x'', ''b'']) = Some (typed [''b''])"
    by (simp add: SelectOption_retried_x del: SelectOption_retried.simps(2))
  have r0: "SelectOption_retried ansi_ui (RemoveDuplicates [''Dune''] []) False 0
              (typed [''A'']) = Some (typed [''A''])"
    by simp
  have g2: "GetInput (typed ['' 2'']) = ((''2'', None), typed [])"
    by (simp add: GetInput_typed TrimSpace_lines[simplified])
  have gb: "GetInput (typed [''b'']) = ((''b'', None), typed [])"
    by (simp add: GetInput_typed TrimSpace_lines[simplified])
  have ga: "GetInput (typed [''A'']) = ((''A'', None), typed [])"
    by (simp add: GetInput_typed TrimSpace_lines[simplified])
  have r: "RemoveDuplicates ?opts [] = [''Dune'', Tag ansi_ui ''Emma'' True]"
    by (simp add: RemoveDuplicates_def RemoveDuplicates_loop.simps lookup_found_def Let_def
        Tag_def ansi_ui_def LocalTag_def)
  have t: "TrimSpace ''Emma'' = ''Emma''"
    by (simp add: TrimSpace_ascii ascii_def unicode_IsSpace_def)
  have u: "unTag ansi_ui (Tag ansi_ui ''Emma'' True) = ''Emma''"
    by (simp add: unTag_def Tag_def ansi_ui_def LocalTag_def OnlineTag_def HasPrefix_def t)
  show ?thesis
    using SelectOption_choices[OF r2 _ g2, of "''Title''" "[]"]
      SelectOption_choices[OF r1 _ gb, of "''Title''" "[]"]
      SelectOption_choices[OF r0 _ ga, of "''Title''" "[]"]
    by (simp add: Atoi_lines r u)
qed


subsection \<open>The retry loops\<close>

lemma SelectOption_loop_returns_aux:
  "nat (10 - errs) = n \<Longrightarrow> SelectOption_loop ui options longField errs e \<noteq> None"
proof (induction n arbitrary: errs e)
  case 0
  then have "errs + 1 > 10" by simp
  then show ?case
    by (subst SelectOption_loop.simps) (auto split: prod.splits option.splits)
next
  case (Suc n)
  have "nat (10 - (errs + 1)) = n" using Suc.prems by simp
  then have ih: "\<And>e'. SelectOption_loop ui options longField (errs + 1) e' \<noteq> None"
    by (rule Suc.IH)
  show ?case
    by (subst SelectOption_loop.simps)
       (auto split: prod.splits option.splits simp: ih simp del: not_None_eq)
qed

lemma SelectOption_returns:
  "\<exists>r. SelectOption ui title usage options longField e = Some r"
  using SelectOption_loop_returns_aux[OF refl, of ui "RemoveDuplicates options []" longField 0 e]
  by (simp add: SelectOption_def)

lemma SelectOption_eleven:
  assumes "SelectOption_retried ui (RemoveDuplicates options []) longField 11 e = Some e'"
  shows "SelectOption ui title usage options longField e =
           Some (([], Some (errors_New invalidChoice)), e')"
proof -
  let ?opts = "RemoveDuplicates options []"
  have "SelectOption_retried ui ?opts longField (10 + 1) e = Some e'"
    using assms by simp
  then obtain e10 where a: "SelectOption_retried ui ?opts longField 10 e = Some e10"
    and b: "SelectOption_retried ui ?opts longField 1 e10 = Some e'"
    unfolding SelectOption_retried_add by (auto split: option.splits)
  have "SelectOption_loop ui ?opts longField 0 e = SelectOption_loop ui ?opts longField 10 e10"
    using SelectOption_loop_retried[OF a, of 0] by simp
  then show ?thesis
    using SelectOption_loop_eleventh[OF b] by (simp add: SelectOption_def)
qed

text \<open>
  One iteration of the loop of UpdateValue, from the read of the choice: it returns (on
  an error of the input or of the editor, on an edit that is confirmed, on the choice to
  keep), or the choice is sent to the \<open>default\<close> branch of the switch, or it is an edit that
  is not confirmed.
\<close>

datatype iteration = Returns | Invalid | Unconfirmed

definition UpdateValue_iteration :: "string \<Rightarrow> bool \<Rightarrow> env \<Rightarrow> iteration \<times> env" where
  "UpdateValue_iteration oldValue longField e =
     (case GetInput e of ((choice, scanErr), e1) \<Rightarrow>
        (case scanErr of
           Some err \<Rightarrow> (Returns, e1)
         | None \<Rightarrow>
             if ToLower choice = ''e'' then
               (case (if longField then Edit e1 oldValue else GetInput e1) of
                  ((choice', scanErr'), e2) \<Rightarrow>
                    (case scanErr' of
                       Some err \<Rightarrow> (Returns, e2)
                     | None \<Rightarrow>
                        (case Accept e2 ''Confirm'' of (confirmed, e3) \<Rightarrow>
                           if confirmed then (Returns, e3) else (Unconfirmed, e3))))
             else if ToLower choice = ''k'' then (Returns, e1)
             else (Invalid, e1)))"

text \<open>
  \<open>UpdateValue_retried n errs e\<close>: after \<open>n\<close> iterations from \<open>e\<close> none of which is one that
  returns, the number of invalid choices among them added to \<open>errs\<close>, and the environment;
  \<open>None\<close> when one of the \<open>n\<close> iterations is one that returns.
\<close>

fun UpdateValue_retried :: "string \<Rightarrow> bool \<Rightarrow> nat \<Rightarrow> int \<Rightarrow> env \<Rightarrow> (int \<times> env) option" where
  "UpdateValue_retried oldValue longField 0 errs e = Some (errs, e)"
| "UpdateValue_retried oldValue longField (Suc n) errs e =
     (case UpdateValue_iteration oldValue longField e of
        (Returns, e') \<Rightarrow> None
      | (Invalid, e') \<Rightarrow> UpdateValue_retried oldValue longField n (errs + 1) e'
      | (Unconfirmed, e') \<Rightarrow> UpdateValue_retried oldValue longField n errs e')"

lemma UpdateValue_loop_valid:
  "UpdateValue_loop oldValue longField True newValue errs e = Some ((TrimSpace newValue, None), e)"
  by (subst UpdateValue_loop.simps) simp

lemma UpdateValue_loop_Returns:
  "UpdateValue_iteration oldValue longField e = (Returns, e') \<Longrightarrow>
   \<exists>r. UpdateValue_loop oldValue longField False newValue errs e = Some (r, e')"
  by (subst UpdateValue_loop.simps)
     (auto simp: UpdateValue_iteration_def UpdateValue_loop_valid
        split: prod.splits option.splits if_splits)

lemma UpdateValue_loop_Invalid:
  "UpdateValue_iteration oldValue longField e = (Invalid, e') \<Longrightarrow>
   UpdateValue_loop oldValue longField False newValue errs e =
     (if errs + 1 > 10 then Some (([], Some (errors_New invalidChoice)), e')
      else UpdateValue_loop oldValue longField False newValue (errs + 1) e')"
  by (subst UpdateValue_loop.simps)
     (auto simp: UpdateValue_iteration_def split: prod.splits option.splits if_splits)

lemma UpdateValue_loop_Unconfirmed:
  "UpdateValue_iteration oldValue longField e = (Unconfirmed, e') \<Longrightarrow>
   UpdateValue_loop oldValue longField False newValue errs e =
     UpdateValue_loop oldValue longField False newValue errs e'"
  by (subst UpdateValue_loop.simps)
     (auto simp: UpdateValue_iteration_def split: prod.splits option.splits if_splits)

lemma UpdateValue_retried_mono:
  "UpdateValue_retried oldValue longField n errs e = Some (errs', e') \<Longrightarrow> errs \<le> errs'"
proof (induction n arbitrary: errs e)
  case 0
  then show ?case by simp
next
  case (Suc n)
  obtain it e1 where i: "UpdateValue_iteration oldValue longField e = (it, e1)"
    by (cases "UpdateValue_iteration oldValue longField e")
  show ?case
    using Suc.prems i Suc.IH[of "errs + 1" e1] Suc.IH[of errs e1]
    by (cases it) auto
qed

text \<open>
  The loop after iterations that did not return: the count is the number of invalid
  choices so far, whatever edits were tried in between.
\<close>

lemma UpdateValue_loop_retried:
  "UpdateValue_retried oldValue longField n errs e = Some (errs', e') \<Longrightarrow> errs' \<le> 10 \<Longrightarrow>
   UpdateValue_loop oldValue longField False newValue errs e =
     UpdateValue_loop oldValue longField False newValue errs' e'"
proof (induction n arbitrary: errs e)
  case 0
  then show ?case by simp
next
  case (Suc n)
  obtain it e1 where i: "UpdateValue_iteration oldValue longField e = (it, e1)"
    by (cases "UpdateValue_iteration oldValue longField e")
  show ?case
  proof (cases it)
    case Returns
    then show ?thesis using Suc.prems i by simp
  next
    case Invalid
    then have r: "UpdateValue_retried oldValue longField n (errs + 1) e1 = Some (errs', e')"
      using Suc.prems i by simp
    then have "errs + 1 \<le> 10"
      using UpdateValue_retried_mono[OF r] Suc.prems(2) by simp
    then show ?thesis
      using UpdateValue_loop_Invalid[of oldValue longField e e1 newValue errs] i Invalid
        Suc.IH[OF r Suc.prems(2)]
      by simp
  next
    case Unconfirmed
    then have r: "UpdateValue_retried oldValue longField n errs e1 = Some (errs', e')"
      using Suc.prems i by simp
    show ?thesis
      using UpdateValue_loop_Unconfirmed[of oldValue longField e e1 newValue errs] i Unconfirmed
        Suc.IH[OF r Suc.prems(2)]
      by simp
  qed
qed

lemma UpdateValue_eleven:
  assumes "UpdateValue_retried oldValue longField n 0 e = Some (10, e')"
    and "UpdateValue_iteration oldValue longField e' = (Invalid, e'')"
  shows "UpdateValue field usage oldValue longField e =
           Some (([], Some (errors_New invalidChoice)), e'')"
  using UpdateValue_loop_retried[OF assms(1), of "[]"] UpdateValue_loop_Invalid[OF assms(2), of "[]" 10]
  by (simp add: UpdateValue_def)

text \<open>
  When the loop of UpdateValue returns: at an iteration that returns, or when the count
  of invalid choices passes 10.
\<close>

definition UpdateValue_ends :: "string \<Rightarrow> bool \<Rightarrow> int \<Rightarrow> env \<Rightarrow> nat \<Rightarrow> bool" where
  "UpdateValue_ends oldValue longField errs e n =
     (case UpdateValue_retried oldValue longField n errs e of
        None \<Rightarrow> True
      | Some (errs', e') \<Rightarrow> 10 < errs')"

lemma UpdateValue_ends_returns:
  "UpdateValue_ends oldValue longField errs e n \<Longrightarrow> errs \<le> 10 \<Longrightarrow>
   UpdateValue_loop oldValue longField False newValue errs e \<noteq> None"
proof (induction n arbitrary: errs e)
  case 0
  then show ?case by (simp add: UpdateValue_ends_def)
next
  case (Suc n)
  obtain it e1 where i: "UpdateValue_iteration oldValue longField e = (it, e1)"
    by (cases "UpdateValue_iteration oldValue longField e")
  show ?case
  proof (cases it)
    case Returns
    then show ?thesis
      using UpdateValue_loop_Returns[of oldValue longField e e1 newValue errs] i by auto
  next
    case Invalid
    show ?thesis
    proof (cases "errs + 1 > 10")
      case True
      then show ?thesis
        using UpdateValue_loop_Invalid[of oldValue longField e e1 newValue errs] i Invalid by simp
    next
      case False
      have "UpdateValue_ends oldValue longField (errs + 1) e1 n"
        using Suc.prems(1) i Invalid by (simp add: UpdateValue_ends_def)
      then have "UpdateValue_loop oldValue longField False newValue (errs + 1) e1 \<noteq> None"
        using False by (intro Suc.IH) auto
      then show ?thesis
        using UpdateValue_loop_Invalid[of oldValue longField e e1 newValue errs] i Invalid False
        by simp
    qed
  next
    case Unconfirmed
    have "UpdateValue_ends oldValue longField errs e1 n"
      using Suc.prems(1) i Unconfirmed by (simp add: UpdateValue_ends_def)
    then have "UpdateValue_loop oldValue longField False newValue errs e1 \<noteq> None"
      using Suc.prems(2) by (intro Suc.IH) auto
    then show ?thesis
      using UpdateValue_loop_Unconfirmed[of oldValue longField e e1 newValue errs] i Unconfirmed
      by simp
  qed
qed

lemma UpdateValue_ends_Suc:
  "UpdateValue_iteration oldValue longField e = (Invalid, e1) \<Longrightarrow>
   UpdateValue_ends oldValue longField (errs + 1) e1 n \<Longrightarrow>
   UpdateValue_ends oldValue longField errs e (Suc n)"
  "UpdateValue_iteration oldValue longField e = (Unconfirmed, e1) \<Longrightarrow>
   UpdateValue_ends oldValue longField errs e1 n \<Longrightarrow>
   UpdateValue_ends oldValue longField errs e (Suc n)"
  "UpdateValue_iteration oldValue longField e = (Returns, e1) \<Longrightarrow>
   UpdateValue_ends oldValue longField errs e (Suc n)"
  by (simp_all add: UpdateValue_ends_def)

lemma UpdateValue_returns_ends:
  assumes "UpdateValue_loop oldValue longField validChoice newValue errs e = Some y"
  shows "validChoice \<or> (\<exists>n. UpdateValue_ends oldValue longField errs e n)"
proof (rule UpdateValue_loop.raw_induct
    [where P = "\<lambda>oldValue longField validChoice newValue errs e y.
                  validChoice \<or> (\<exists>n. UpdateValue_ends oldValue longField errs e n)", OF _ assms])
  fix f :: "string \<Rightarrow> bool \<Rightarrow> bool \<Rightarrow> string \<Rightarrow> int \<Rightarrow> env \<Rightarrow> ((string \<times> error option) \<times> env) option"
  fix oldValue newValue :: string and longField validChoice :: bool and errs :: int
  fix e :: env and y :: "(string \<times> error option) \<times> env"
  assume ih: "\<And>oldValue longField validChoice newValue errs e y.
      f oldValue longField validChoice newValue errs e = Some y \<Longrightarrow>
      validChoice \<or> (\<exists>n. UpdateValue_ends oldValue longField errs e n)"
  assume step: "(if \<not> validChoice then
        (case GetInput e of ((choice, scanErr), e1) \<Rightarrow>
           (case scanErr of
              Some err \<Rightarrow> Some ((newValue, Some err), e1)
            | None \<Rightarrow>
                if ToLower choice = ''e'' then
                  (case (if longField then Edit e1 oldValue else GetInput e1) of
                     ((choice', scanErr'), e2) \<Rightarrow>
                       (case scanErr' of
                          Some err \<Rightarrow> Some ((newValue, Some err), e2)
                        | None \<Rightarrow>
                           (case Accept e2 ''Confirm'' of (confirmed, e3) \<Rightarrow>
                              if confirmed
                              then f oldValue longField True choice' errs e3
                              else f oldValue longField validChoice newValue errs e3)))
                else if ToLower choice = ''k''
                then f oldValue longField True oldValue errs e1
                else if errs + 1 > 10 then Some (([], Some (errors_New invalidChoice)), e1)
                else f oldValue longField validChoice newValue (errs + 1) e1))
      else Some ((TrimSpace newValue, None), e)) = Some y"
  show "validChoice \<or> (\<exists>n. UpdateValue_ends oldValue longField errs e n)"
  proof (cases validChoice)
    case True
    then show ?thesis by simp
  next
    case False
    obtain it e1 where i: "UpdateValue_iteration oldValue longField e = (it, e1)"
      by (cases "UpdateValue_iteration oldValue longField e")
    show ?thesis
    proof (cases it)
      case Returns
      then show ?thesis using UpdateValue_ends_Suc(3)[of oldValue longField e e1 errs 0] i by blast
    next
      case Invalid
      show ?thesis
      proof (cases "errs + 1 > 10")
        case True
        have "UpdateValue_ends oldValue longField (errs + 1) e1 0"
          using True by (simp add: UpdateValue_ends_def)
        then show ?thesis
          using UpdateValue_ends_Suc(1)[of oldValue longField e e1 errs 0] i Invalid by blast
      next
        case le: False
        have "f oldValue longField False newValue (errs + 1) e1 = Some y"
          using step False i Invalid le
          by (auto simp: UpdateValue_iteration_def split: prod.splits option.splits if_splits)
        from ih[OF this] obtain n where "UpdateValue_ends oldValue longField (errs + 1) e1 n"
          by auto
        then show ?thesis
          using UpdateValue_ends_Suc(1)[of oldValue longField e e1 errs n] i Invalid by blast
      qed
    next
      case Unconfirmed
      have "f oldValue longField False newValue errs e1 = Some y"
        using step False i Unconfirmed
        by (auto simp: UpdateValue_iteration_def split: prod.splits option.splits if_splits)
      from ih[OF this] obtain n where "UpdateValue_ends oldValue longField errs e1 n"
        by auto
      then show ?thesis
        using UpdateValue_ends_Suc(2)[of oldValue longField e e1 errs n] i Unconfirmed by blast
    qed
  qed
qed

lemma UpdateValue_returns_iff:
  "(\<exists>r. UpdateValue field usage oldValue longField e = Some r) \<longleftrightarrow>
   (\<exists>n. UpdateValue_ends oldValue longField 0 e n)"
proof
  assume "\<exists>r. UpdateValue field usage oldValue longField e = Some r"
  then obtain r where "UpdateValue_loop oldValue longField False [] 0 e = Some r"
    by (auto simp: UpdateValue_def)
  from UpdateValue_returns_ends[OF this] show "\<exists>n. UpdateValue_ends oldValue longField 0 e n"
    by simp
next
  assume "\<exists>n. UpdateValue_ends oldValue longField 0 e n"
  then obtain n where "UpdateValue_ends oldValue longField 0 e n" ..
  then have "UpdateValue_loop oldValue longField False [] 0 e \<noteq> None"
    by (rule UpdateValue_ends_returns) simp
  then show "\<exists>r. UpdateValue field usage oldValue longField e = Some r"
    by (auto simp: UpdateValue_def)
qed

text \<open>A user who chooses to edit, types a value and answers \<open>n\<close> to the confirmation, again
  and again.\<close>

definition unconfirmed_edits :: env where
  "unconfirmed_edits =
     \<lparr>stdin = cycle [(''e'', None), (''new value'', None), (''n'', None)],
      editor = sconst (Inr [])\<rparr>"

lemma TrimSpace_words:
  "TrimSpace ''e'' = ''e''" "TrimSpace ''n'' = ''n''" "TrimSpace ''new value'' = ''new value''"
  by (simp_all add: TrimSpace_ascii ascii_def unicode_IsSpace_def)

lemma UpdateValue_iteration_unconfirmed_edits:
  "UpdateValue_iteration oldValue False unconfirmed_edits = (Unconfirmed, unconfirmed_edits)"
  by (simp add: UpdateValue_iteration_def unconfirmed_edits_def GetInput_def Accept_def
      TrimSpace_words ToLower_lines)

lemma UpdateValue_retried_unconfirmed_edits:
  "UpdateValue_retried oldValue False n errs unconfirmed_edits = Some (errs, unconfirmed_edits)"
  by (induction n) (simp_all add: UpdateValue_iteration_unconfirmed_edits)

text \<open>
  C1, as stated, fails for UpdateValue: an edit that is not confirmed is retried without
  counting an error, so on edits that are never confirmed the loop never returns.
\<close>

theorem UpdateValue_unconfirmed_edits_never_returns:
  "UpdateValue ''Title'' [] ''Dune'' False unconfirmed_edits = None"
proof -
  have "\<not> (\<exists>n. UpdateValue_ends ''Dune'' False 0 unconfirmed_edits n)"
    by (simp add: UpdateValue_ends_def UpdateValue_retried_unconfirmed_edits)
  then have n: "\<not> (\<exists>r. UpdateValue ''Title'' [] ''Dune'' False unconfirmed_edits = Some r)"
    using UpdateValue_returns_iff[of "''Title''" "[]" "''Dune''" False unconfirmed_edits] by blast
  show ?thesis
  proof (cases "UpdateValue ''Title'' [] ''Dune'' False unconfirmed_edits")
    case None
    then show ?thesis .
  next
    case (Some y)
    then show ?thesis using n by blast
  qed
qed

text \<open>
  C1, amended. SelectOption returns on every sequence of inputs; every iteration that does
  not return (a choice that is not accepted, a manual edit that is not confirmed) adds one
  to the error count, which is never reset, and the eleventh such iteration returns the
  error "Invalid choice.". UpdateValue counts the choices that are neither \<open>e\<close> nor \<open>k\<close> (in
  either case) and no other, whatever edits are tried and not confirmed in between; at the
  eleventh such choice in all it returns the error "Invalid choice."; and it returns
  exactly on the inputs on which some iteration returns or an eleventh choice is counted.
\<close>

theorem retry_loops_bounded:
  "(\<exists>r. SelectOption ui title usage options longField e = Some r) \<and>
   (SelectOption_retried ui (RemoveDuplicates options []) longField 11 e = Some e' \<longrightarrow>
      SelectOption ui title usage options longField e =
        Some (([], Some (errors_New invalidChoice)), e')) \<and>
   (UpdateValue_retried oldValue longField n 0 e = Some (10, e') \<and>
    UpdateValue_iteration oldValue longField e' = (Invalid, e'') \<longrightarrow>
      UpdateValue field usage oldValue longField e =
        Some (([], Some (errors_New invalidChoice)), e'')) \<and>
   ((\<exists>r. UpdateValue field usage oldValue longField e = Some r) \<longleftrightarrow>
    (\<exists>m. UpdateValue_ends oldValue longField 0 e m))"
  using SelectOption_returns[of ui title usage options longField e]
    SelectOption_eleven[of ui options longField e e' title usage]
    UpdateValue_eleven[of oldValue longField n e e' e'' field usage]
    UpdateValue_returns_iff[of field usage oldValue longField e]
  by blast

lemma UpdateValue_iteration_x:
  "UpdateValue_iteration oldValue False (typed (''x'' # ls)) = (Invalid, typed ls)"
  by (simp add: UpdateValue_iteration_def GetInput_typed TrimSpace_lines[simplified] ToLower_lines)

lemma UpdateValue_iteration_edit:
  "UpdateValue_iteration oldValue False (typed (''e'' # ''new value'' # ''n'' # ls)) =
     (Unconfirmed, typed ls)"
  by (simp add: UpdateValue_iteration_def GetInput_typed TrimSpace_lines[simplified] ToLower_lines
      Accept_def)

text \<open>
  A user who types \<open>x\<close> five times, tries an edit without confirming it, and types \<open>x\<close>
  again: SelectOption gives up at the fifth of these, the eleventh iteration; UpdateValue at
  the sixth, the eleventh invalid choice.
\<close>

theorem retry_loops_bounded_witness:
  "SelectOption ansi_ui ''Title'' [] [''Dune''] False
     (typed [''x'', ''x'', ''x'', ''x'', ''x'', ''e'', ''new value'', ''n'',
             ''x'', ''x'', ''x'', ''x'', ''x'', ''x'']) =
     Some (([], Some (errors_New invalidChoice)), typed [''x'']) \<and>
   UpdateValue ''Title'' [] ''Dune'' False
     (typed [''x'', ''x'', ''x'', ''x'', ''x'', ''e'', ''new value'', ''n'',
             ''x'', ''x'', ''x'', ''x'', ''x'', ''x'']) =
     Some (([], Some (errors_New invalidChoice)), typed []) \<and>
   (\<exists>m. UpdateValue_ends ''Dune'' False 0
     (typed [''x'', ''x'', ''x'', ''x'', ''x'', ''e'', ''new value'', ''n'',
             ''x'', ''x'', ''x'', ''x'', ''x'', ''x'']) m)"
proof -
  let ?e = "typed [''x'', ''x'', ''x'', ''x'', ''x'', ''e'', ''new value'', ''n'',
                   ''x'', ''x'', ''x'', ''x'', ''x'', ''x'']"
  have s: "SelectOption_retried ansi_ui (RemoveDuplicates [''Dune''] []) False 11 ?e =
             Some (typed [''x''])"
    by (simp add: numeral_eq_Suc SelectOption_retried_x SelectOption_retried_edit
        del: SelectOption_retried.simps(2))
  have u: "UpdateValue_retried ''Dune'' False 11 0 ?e = Some (10, typed [''x''])"
    by (simp add: numeral_eq_Suc UpdateValue_iteration_x UpdateValue_iteration_edit)
  have i: "UpdateValue_iteration ''Dune'' False (typed [''x'']) = (Invalid, typed [])"
    by (rule UpdateValue_iteration_x)
  show ?thesis
    using retry_loops_bounded[where ui = ansi_ui and title = "''Title''" and usage = "[]"
        and options = "[''Dune'']" and longField = False and e = ?e and e' = "typed [''x'']"
        and oldValue = "''Dune''" and n = 11 and e'' = "typed []" and field = "''Title''"] s u i
    by blast
qed


text \<open>
  Outside ASCII: the Kelvin sign U+212A is lower-cased to \<open>k\<close>, so UpdateValue takes it as
  the choice to keep; the no-break space U+00A0 and the next-line character U+0085 are
  white space.
\<close>

lemma ToLower_Kelvin: "ToLower [CHR 0xE2, CHR 0x84, CHR 0xAA] = ''k''"
proof -
  have "DecodeRuneInString [CHR 0xE2, CHR 0x84, CHR 0xAA] = (0x212A, 3)"
    by (simp add: DecodeRuneInString_def Let_def)
  moreover have "unicode_ToLower 0x212A = 0x6B"
    by (simp add: unicode_ToLower_def to_case_def lower_ranges_def)
  moreover have "EncodeRune 0x6B = ''k''"
    by code_simp
  ultimately show ?thesis
    by (simp add: ToLower_def Map_def runes.simps)
qed

lemma TrimSpace_Kelvin:
  "TrimSpace [CHR 0xE2, CHR 0x84, CHR 0xAA, CHR 0x0A] = [CHR 0xE2, CHR 0x84, CHR 0xAA]"
  by (simp add: TrimSpace_def TrimLeftFunc.simps TrimRightFunc_def lastIndexFunc.simps
      DecodeRuneInString_def DecodeLastRuneInString_def RuneStart_def unicode_IsSpace_def Let_def)

lemma TrimSpace_NBSP:
  "TrimSpace [CHR 0xC2, CHR 0xA0, CHR ''1'', CHR 0xC2, CHR 0x85, CHR 0x0A] = ''1''"
  by (simp add: TrimSpace_def TrimLeftFunc.simps TrimRightFunc_def lastIndexFunc.simps
      DecodeRuneInString_def DecodeLastRuneInString_def RuneStart_def unicode_IsSpace_def Let_def)

lemma UpdateValue_Kelvin:
  "UpdateValue ''Title'' [] ''Dune'' False
     \<lparr>stdin = ([CHR 0xE2, CHR 0x84, CHR 0xAA, CHR 0x0A], None) ## eof_stdin, editor = sconst (Inr [])\<rparr> =
   Some ((''Dune'', None), \<lparr>stdin = eof_stdin, editor = sconst (Inr [])\<rparr>)"
proof -
  have t: "TrimSpace ''Dune'' = ''Dune''"
    by (simp add: TrimSpace_ascii ascii_def unicode_IsSpace_def)
  show ?thesis
    by (simp add: UpdateValue_def UpdateValue_loop.simps GetInput_def TrimSpace_Kelvin
        ToLower_Kelvin t)
qed

section \<open>Properties of SpinWhileThingsHappen\<close>

text \<open>
  What every reachable state satisfies: while the caller selects, the worker runs \<open>f\<close> or
  offers the result of \<open>f\<close>; once the caller has returned, it has returned that result.
\<close>

definition spin_inv :: "error option \<Rightarrow> spin_state \<Rightarrow> bool" where
  "spin_inv fres s =
     (case caller s of
        Selecting \<Rightarrow> worker s = RunningF \<or> worker s = SendingC2 fres
      | Returned err \<Rightarrow> err = fres \<and> worker s = WorkerDone)"

lemma spin_inv_step: "spin_inv fres s \<Longrightarrow> spin_inv fres (spin_step fres ev s)"
  by (cases ev) (auto simp: spin_inv_def split: caller.splits worker_routine.splits option.splits)

lemma spin_inv_fold: "spin_inv fres s \<Longrightarrow> spin_inv fres (fold (spin_step fres) sched s)"
  by (induction sched arbitrary: s) (auto simp: spin_inv_step)

lemma spin_inv_run: "spin_inv fres (spin_run fres sched)"
  unfolding spin_run_def by (rule spin_inv_fold) (simp add: spin_inv_def spin_init_def)

text \<open>
  C7. Under every schedule, that is however the ticks interleave with the completion of
  \<open>f\<close>, a call that has returned has returned the error \<open>f\<close> produced (nil exactly when
  \<open>f\<close> returned nil); and from every point of every schedule the call returns that error
  once \<open>f\<close> has returned and the caller has received from \<open>c2\<close>.
\<close>

theorem SpinWhileThingsHappen_returns_error_of_f:
  "(SpinWhileThingsHappen title fres sched = Some err \<longrightarrow> err = fres) \<and>
   SpinWhileThingsHappen title fres (sched @ [FReturns, ReceiveC2]) = Some fres"
proof
  show "SpinWhileThingsHappen title fres sched = Some err \<longrightarrow> err = fres"
    using spin_inv_run[of fres sched]
    by (auto simp: SpinWhileThingsHappen_def spin_inv_def split: caller.splits)
next
  have "spin_inv fres (spin_run fres sched)" by (rule spin_inv_run)
  then show "SpinWhileThingsHappen title fres (sched @ [FReturns, ReceiveC2]) = Some fres"
    by (auto simp: SpinWhileThingsHappen_def spin_run_def spin_inv_def
        split: caller.splits worker_routine.splits option.splits)
qed

theorem SpinWhileThingsHappen_returns_error_of_f_witness:
  "SpinWhileThingsHappen ''Copying'' (Some (errors_New ''disk full''))
     [Tick, ReceiveC1, Tick, FReturns, Tick, ReceiveC1, ReceiveC2] = Some (Some (errors_New ''disk full'')) \<and>
   SpinWhileThingsHappen ''Copying'' None [Tick, ReceiveC1, FReturns, ReceiveC2] = Some None"
proof -
  have a: "SpinWhileThingsHappen ''Copying'' (Some (errors_New ''disk full''))
     [Tick, ReceiveC1, Tick, FReturns, Tick, ReceiveC1, ReceiveC2] = Some (Some (errors_New ''disk full''))"
    by (simp add: SpinWhileThingsHappen_def spin_run_def spin_init_def)
  have b: "SpinWhileThingsHappen ''Copying'' None ([Tick, ReceiveC1] @ [FReturns, ReceiveC2]) = Some None"
    using SpinWhileThingsHappen_returns_error_of_f[of "''Copying''" None "[Tick, ReceiveC1]"] by blast
  from a SpinWhileThingsHappen_returns_error_of_f[of "''Copying''" "Some (errors_New ''disk full'')"
      "[Tick, ReceiveC1, Tick, FReturns, Tick, ReceiveC1, ReceiveC2]" "Some (errors_New ''disk full'')"] b
  show ?thesis by simp
qed

section \<open>Properties of the helpers over the store\<close>

lemma load_update:
  "j < len s \<Longrightarrow> load (h(ptr s + j := v)) s = (load h s)[j := v]"
  by (auto simp: load_def list_eq_iff_nth_eq nth_list_update)

lemma length_load [simp]: "length (load h s) = len s"
  by (simp add: load_def)

lemma load_nth: "i < len s \<Longrightarrow> load h s ! i = h (ptr s + i)"
  by (simp add: load_def)

lemma heap_loop_refines:
  "j \<le> i \<Longrightarrow>
   RemoveDuplicates_loop found j i (load h s) =
     (load (fst (RemoveDuplicates_heap_loop found j i s h)) s,
      snd (RemoveDuplicates_heap_loop found j i s h))"
proof (induction found j i s h rule: RemoveDuplicates_heap_loop.induct)
  case (1 found j i s h)
  show ?case
  proof (cases "i < len s")
    case False
    then show ?thesis
      by (subst RemoveDuplicates_loop.simps, subst (1 2) RemoveDuplicates_heap_loop.simps) simp
  next
    case True
    note lt = this
    show ?thesis
    proof (cases "\<not> lookup_found found (h (ptr s + i)) \<and> h (ptr s + i) \<noteq> []")
      case True
      have jl: "j < len s" using lt "1.prems" by simp
      have ih: "RemoveDuplicates_loop (found(h (ptr s + i) \<mapsto> True)) (j + 1) (i + 1)
                  (load (h(ptr s + j := h (ptr s + i))) s) =
                (load (fst (RemoveDuplicates_heap_loop (found(h (ptr s + i) \<mapsto> True)) (j + 1) (i + 1) s
                          (h(ptr s + j := h (ptr s + i))))) s,
                 snd (RemoveDuplicates_heap_loop (found(h (ptr s + i) \<mapsto> True)) (j + 1) (i + 1) s
                          (h(ptr s + j := h (ptr s + i)))))"
        using "1.IH"(1)[OF lt refl True] "1.prems" by (simp add: fun_upd_def)
      show ?thesis
        using True lt ih
        by (subst RemoveDuplicates_loop.simps, subst (1 2) RemoveDuplicates_heap_loop.simps)
           (simp add: Let_def load_nth load_update[OF jl])
    next
      case False
      have ih: "RemoveDuplicates_loop found j (i + 1) (load h s) =
                (load (fst (RemoveDuplicates_heap_loop found j (i + 1) s h)) s,
                 snd (RemoveDuplicates_heap_loop found j (i + 1) s h))"
        using "1.IH"(2)[OF lt refl False] "1.prems" by simp
      show ?thesis
        using False lt ih
        by (subst RemoveDuplicates_loop.simps, subst (1 2) RemoveDuplicates_heap_loop.simps)
           (auto simp add: Let_def load_nth)
    qed
  qed
qed

lemma heap_loop_frame:
  "j \<le> i \<Longrightarrow> a \<notin> cells s \<Longrightarrow> fst (RemoveDuplicates_heap_loop found j i s h) a = h a"
proof (induction found j i s h rule: RemoveDuplicates_heap_loop.induct)
  case (1 found j i s h)
  show ?case
  proof (cases "i < len s")
    case False
    then show ?thesis by (subst RemoveDuplicates_heap_loop.simps) simp
  next
    case True
    note lt = this
    show ?thesis
    proof (cases "\<not> lookup_found found (h (ptr s + i)) \<and> h (ptr s + i) \<noteq> []")
      case True
      have ne: "a \<noteq> ptr s + j" using "1.prems" lt by (auto simp: cells_def)
      have "fst (RemoveDuplicates_heap_loop (found(h (ptr s + i) \<mapsto> True)) (j + 1) (i + 1) s
                  (h(ptr s + j := h (ptr s + i)))) a = (h(ptr s + j := h (ptr s + i))) a"
        using "1.IH"(1)[OF lt refl True] "1.prems" by (simp add: fun_upd_def)
      then show ?thesis
        using True lt ne by (subst RemoveDuplicates_heap_loop.simps) (simp add: Let_def)
    next
      case False
      have "fst (RemoveDuplicates_heap_loop found j (i + 1) s h) a = h a"
        using "1.IH"(2)[OF lt refl False] "1.prems" by simp
      then show ?thesis
        using False lt by (subst RemoveDuplicates_heap_loop.simps) (auto simp add: Let_def)
    qed
  qed
qed

lemma load_take: "n \<le> len s \<Longrightarrow> load h (s\<lparr>len := n\<rparr>) = take n (load h s)"
  by (auto simp: load_def take_map)

lemma heap_loop_bound:
  "j \<le> i \<Longrightarrow> i \<le> len s \<Longrightarrow> snd (RemoveDuplicates_heap_loop found j i s h) \<le> len s"
proof (induction found j i s h rule: RemoveDuplicates_heap_loop.induct)
  case (1 found j i s h)
  show ?case
  proof (cases "i < len s")
    case False
    then show ?thesis using "1.prems" by (subst RemoveDuplicates_heap_loop.simps) simp
  next
    case True
    note lt = this
    show ?thesis
    proof (cases "\<not> lookup_found found (h (ptr s + i)) \<and> h (ptr s + i) \<noteq> []")
      case True
      have "snd (RemoveDuplicates_heap_loop (found(h (ptr s + i) \<mapsto> True)) (j + 1) (i + 1) s
                  (h(ptr s + j := h (ptr s + i)))) \<le> len s"
        using "1.IH"(1)[OF lt refl True] "1.prems" lt by (simp add: fun_upd_def)
      then show ?thesis
        using True lt by (subst RemoveDuplicates_heap_loop.simps) (simp add: Let_def)
    next
      case False
      have "snd (RemoveDuplicates_heap_loop found j (i + 1) s h) \<le> len s"
        using "1.IH"(2)[OF lt refl False] "1.prems" lt by simp
      then show ?thesis
        using False lt by (subst RemoveDuplicates_heap_loop.simps) (auto simp add: Let_def)
    qed
  qed
qed

lemma RemoveDuplicates_heap_refines:
  "load (fst (RemoveDuplicates_heap s others h)) (snd (RemoveDuplicates_heap s others h)) =
     RemoveDuplicates (load h s) others"
  using heap_loop_refines[of 0 0 "mark_found others Map.empty" h s]
    heap_loop_bound[of 0 0 s "mark_found others Map.empty" h]
  by (simp add: RemoveDuplicates_heap_def RemoveDuplicates_def split_beta load_take)

lemma RemoveDuplicates_heap_frame:
  "a \<notin> cells s \<Longrightarrow> fst (RemoveDuplicates_heap s others h) a = h a"
  using heap_loop_frame[of 0 0 a s "mark_found others Map.empty" h]
  by (simp add: RemoveDuplicates_heap_def split_beta)

lemma StringInSlice_heap_from_refines:
  "i \<le> len s \<Longrightarrow>
   StringInSlice_heap_from i a s h = StringInSlice_from (int i) a (drop i (load h s))"
proof (induction i a s h rule: StringInSlice_heap_from.induct)
  case (1 i a s h)
  show ?case
  proof (cases "i < len s")
    case False
    then show ?thesis using "1.prems" by (subst StringInSlice_heap_from.simps) simp
  next
    case True
    have dr: "drop i (load h s) = h (ptr s + i) # drop (Suc i) (load h s)"
      using True by (simp add: Cons_nth_drop_Suc[symmetric] load_nth)
    show ?thesis
    proof (cases "h (ptr s + i) = a")
      case True
      then show ?thesis using \<open>i < len s\<close> by (subst StringInSlice_heap_from.simps) (simp add: dr)
    next
      case False
      have "StringInSlice_heap_from (i + 1) a s h = StringInSlice_from (int (i + 1)) a (drop (i + 1) (load h s))"
        using "1.IH"[OF True False] True by simp
      then show ?thesis
        using False True by (subst StringInSlice_heap_from.simps) (simp add: dr add.commute)
    qed
  qed
qed

lemma StringInSlice_heap_refines:
  "StringInSlice_heap a s h = StringInSlice a (load h s)"
  using StringInSlice_heap_from_refines[of 0 s a h]
  by (simp add: StringInSlice_heap_def StringInSlice_def)

text \<open>
  C8. The string-slice helpers are functions of their arguments: two calls on equal
  lists, wherever the lists are stored and whatever else the stores hold, give equal
  results, and RemoveDuplicates leaves equal lists; RemoveDuplicates changes no cell of the
  store outside the list it is given; StringInSlice and CaseInsensitiveContains return no
  store, they write nothing.
\<close>

theorem string_helpers_deterministic:
  assumes "load h1 s1 = load h2 s2" and "t = t'" and "substr = substr'"
  shows "StringInSlice_heap a s1 h1 = StringInSlice_heap a s2 h2 \<and>
         load (fst (RemoveDuplicates_heap s1 others h1)) (snd (RemoveDuplicates_heap s1 others h1)) =
           load (fst (RemoveDuplicates_heap s2 others h2)) (snd (RemoveDuplicates_heap s2 others h2)) \<and>
         (x \<notin> cells s1 \<longrightarrow> fst (RemoveDuplicates_heap s1 others h1) x = h1 x) \<and>
         CaseInsensitiveContains t substr = CaseInsensitiveContains t' substr'"
  using assms
  by (simp add: StringInSlice_heap_refines RemoveDuplicates_heap_refines RemoveDuplicates_heap_frame)

text \<open>Two stores that hold the same list at different addresses, among other data.\<close>

definition heap_one :: heap where
  "heap_one = (\<lambda>a. ''other'')(10 := ''one'', 11 := ''two'', 12 := ''one'')"

definition heap_two :: heap where
  "heap_two = (\<lambda>a. [])(0 := ''one'', 1 := ''two'', 2 := ''one'')"

theorem string_helpers_deterministic_witness:
  "StringInSlice_heap ''two'' \<lparr>ptr = 10, len = 3\<rparr> heap_one =
     StringInSlice_heap ''two'' \<lparr>ptr = 0, len = 3\<rparr> heap_two \<and>
   load (fst (RemoveDuplicates_heap \<lparr>ptr = 10, len = 3\<rparr> [] heap_one))
        (snd (RemoveDuplicates_heap \<lparr>ptr = 10, len = 3\<rparr> [] heap_one)) =
     load (fst (RemoveDuplicates_heap \<lparr>ptr = 0, len = 3\<rparr> [] heap_two))
          (snd (RemoveDuplicates_heap \<lparr>ptr = 0, len = 3\<rparr> [] heap_two)) \<and>
   fst (RemoveDuplicates_heap \<lparr>ptr = 10, len = 3\<rparr> [] heap_one) 13 = ''other'' \<and>
   CaseInsensitiveContains ''TestString'' ''stSt'' = CaseInsensitiveContains ''TestString'' ''stSt''"
proof -
  have l: "load heap_one \<lparr>ptr = 10, len = 3\<rparr> = load heap_two \<lparr>ptr = 0, len = 3\<rparr>"
    by (simp add: load_def heap_one_def heap_two_def upt_rec)
  have c: "13 \<notin> cells \<lparr>ptr = 10, len = 3\<rparr>" by (simp add: cells_def)
  have h: "heap_one 13 = ''other''" by (simp add: heap_one_def)
  show ?thesis
    using string_helpers_deterministic[OF l refl refl, of "''two''" "[]" 13 "''TestString''" "''stSt''"] c h
    by simp
qed

section \<open>Properties of DeleteEmptyFolders\<close>













lemma follow_plain:
  "0 < k \<Longrightarrow> (\<And>t. map_of fs p \<noteq> Some (Symlink t)) \<Longrightarrow> follow k fs p = Inr p"
  by (cases k) (auto split: option.splits node.splits)











lemma walk_Visit:
  "walk root (Visit p info) st =
     (case walkFn root p (Some info) None st of
        Panic e \<Rightarrow> Some (Panic e)
      | Normal st1 \<Rightarrow>
          if info \<noteq> Dir then Some (Normal st1)
          else (case readDirNames (files st1) p of
                  Inl err \<Rightarrow> Some (walkFn root p (Some info) (Some err) st1)
                | Inr names \<Rightarrow> walk root (Names p names) st1))"
  by (subst walk.simps) simp

lemma walk_Names_Nil: "walk root (Names p []) st = Some (Normal st)"
  by (subst walk.simps) simp

lemma walk_Names_Cons:
  "walk root (Names p (name # rest)) st =
     (case Lstat (files st) (Join p name) of
        Inl err \<Rightarrow>
          (case walkFn root (Join p name) None (Some err) st of
             Panic e \<Rightarrow> Some (Panic e)
           | Normal st1 \<Rightarrow> walk root (Names p rest) st1)
      | Inr fileInfo \<Rightarrow>
          Option.bind (walk root (Visit (Join p name) fileInfo) st)
            (\<lambda>r. case r of
                    Panic e \<Rightarrow> Some (Panic e)
                  | Normal st1 \<Rightarrow> walk root (Names p rest) st1))"
  by (subst walk.simps) simp




















text \<open>An example: under \<open>m\<close>, \<open>a/b\<close> and \<open>d\<close> hold no file, \<open>c\<close> holds one.\<close>

definition music :: filesystem where
  "music = [([], Dir), ([''m''], Dir), ([''m'', ''a''], Dir), ([''m'', ''a'', ''b''], Dir),
            ([''m'', ''c''], Dir), ([''m'', ''c'', ''song''], File ''x''), ([''m'', ''d''], Dir),
            ([''e''], Dir)]"

lemma DeleteEmptyFolders_music:
  "DeleteEmptyFolders [''m''] music =
     Some (Normal (None, [([], Dir), ([''m''], Dir), ([''m'', ''c''], Dir),
                          ([''m'', ''c'', ''song''], File ''x''), ([''e''], Dir)]))"
  by (simp add: DeleteEmptyFolders_def DeleteEmptyFolders_loop.simps Walk_def walk_Visit
      walk_Names_Cons walk_Names_Nil walkFn_def Lstat_def readDirNames_def open_dir_def
      IsDirectoryEmpty_def Remove_def dir_entries_def Join_def music_def numeral_eq_Suc)




section \<open>Properties of GetUniqueTimestampedFilename\<close>

text \<open>Once \<open>attempts\<close> is above 50 the condition of the loop holds for ever.\<close>

lemma loop_past_50:
  assumes "GetUniqueTimestampedFilename_loop getwd fs now dir filenameBase found attempts u = Some y"
  shows "attempts \<le> 50"
proof (rule GetUniqueTimestampedFilename_loop.raw_induct
    [where P = "\<lambda>getwd fs now dir filenameBase found attempts u y. attempts \<le> 50", OF _ assms])
  fix f :: "error + path \<Rightarrow> filesystem \<Rightarrow> string \<Rightarrow> path \<Rightarrow> string \<Rightarrow> bool \<Rightarrow> int \<Rightarrow> path \<Rightarrow> path option"
  fix getwd :: "error + path" and fs :: filesystem and now filenameBase :: string
  fix dir u y :: path and found :: bool and attempts :: int
  assume ih: "\<And>getwd fs now dir filenameBase found attempts u y.
      f getwd fs now dir filenameBase found attempts u = Some y \<Longrightarrow> attempts \<le> 50"
  assume step: "(if \<not> found \<or> attempts > 50 then
        (case FileExists getwd fs (Join_string dir (candidate now filenameBase attempts)) of
           Inl err \<Rightarrow>
             f getwd fs now dir filenameBase True attempts
               (Join_string dir (candidate now filenameBase attempts))
         | Inr absolutePath \<Rightarrow> f getwd fs now dir filenameBase found (attempts + 1) u)
      else Some u) = Some y"
  show "attempts \<le> 50"
  proof (rule ccontr)
    assume "\<not> attempts \<le> 50"
    then have gt: "attempts > 50" by simp
    show False
    proof (cases "FileExists getwd fs (Join_string dir (candidate now filenameBase attempts))")
      case (Inl err)
      then have "f getwd fs now dir filenameBase True attempts
               (Join_string dir (candidate now filenameBase attempts)) = Some y"
        using step gt by simp
      from ih[OF this] gt show False by simp
    next
      case (Inr absolutePath)
      then have "f getwd fs now dir filenameBase found (attempts + 1) u = Some y"
        using step gt by simp
      from ih[OF this] gt show False by simp
    qed
  qed
qed

lemma loop_all_taken:
  assumes "\<And>k. 0 \<le> k \<Longrightarrow> k \<le> 50 \<Longrightarrow>
             \<exists>a. FileExists getwd fs (Join_string dir (candidate now filenameBase k)) = Inr a"
  shows "nat (51 - attempts) = n \<Longrightarrow> 0 \<le> attempts \<Longrightarrow>
         GetUniqueTimestampedFilename_loop getwd fs now dir filenameBase False attempts u = None"
proof (induction n arbitrary: attempts)
  case 0
  then have "attempts > 50" by simp
  then show ?case
    using loop_past_50[of getwd fs now dir filenameBase False attempts u]
    by (cases "GetUniqueTimestampedFilename_loop getwd fs now dir filenameBase False attempts u") auto
next
  case (Suc n)
  then have le: "attempts \<le> 50" by simp
  obtain a where a: "FileExists getwd fs (Join_string dir (candidate now filenameBase attempts)) = Inr a"
    using assms[OF Suc.prems(2) le] by blast
  have "GetUniqueTimestampedFilename_loop getwd fs now dir filenameBase False (attempts + 1) u = None"
    using Suc.prems by (intro Suc.IH) auto
  then show ?case
    using a by (subst GetUniqueTimestampedFilename_loop.simps) simp
qed

text \<open>When one of the first 51 candidates is free, the loop returns the first free one.\<close>

lemma loop_first_free:
  assumes "\<And>k. attempts \<le> k \<Longrightarrow> k < free \<Longrightarrow>
             \<exists>a. FileExists getwd fs (Join_string dir (candidate now filenameBase k)) = Inr a"
    and "\<exists>err. FileExists getwd fs (Join_string dir (candidate now filenameBase free)) = Inl err"
    and "free \<le> 50"
  shows "nat (free - attempts) = n \<Longrightarrow> attempts \<le> free \<Longrightarrow>
         GetUniqueTimestampedFilename_loop getwd fs now dir filenameBase False attempts u =
           Some (Join_string dir (candidate now filenameBase free))"
  using assms(1)
proof (induction n arbitrary: attempts)
  case 0
  then have e: "attempts = free" by simp
  obtain err where "FileExists getwd fs (Join_string dir (candidate now filenameBase free)) = Inl err"
    using assms(2) by blast
  then show ?case
    using e assms(3)
    by (subst GetUniqueTimestampedFilename_loop.simps,
        subst GetUniqueTimestampedFilename_loop.simps) simp
next
  case (Suc n)
  then have lt: "attempts < free" by simp
  obtain a where a: "FileExists getwd fs (Join_string dir (candidate now filenameBase attempts)) = Inr a"
    using Suc.prems(3)[of attempts] lt by auto
  have "GetUniqueTimestampedFilename_loop getwd fs now dir filenameBase False (attempts + 1) u =
          Some (Join_string dir (candidate now filenameBase free))"
    using Suc.prems by (intro Suc.IH) auto
  then show ?case
    using a by (subst GetUniqueTimestampedFilename_loop.simps) simp
qed

lemma nat_digits_digits: "set (nat_digits n) \<subseteq> set ''0123456789''"
proof (induction n rule: nat_digits.induct)
  case (1 n)
  have d: "''0123456789'' ! k \<in> set ''0123456789''" if "k < 10" for k
    using that by (intro nth_mem) simp
  show ?case
  proof (cases "n < 10")
    case True
    then show ?thesis using d[of n] by (subst nat_digits.simps) simp
  next
    case False
    then show ?thesis
      using "1.IH" d[of "n mod 10"] by (subst nat_digits.simps) simp
  qed
qed

lemma Sprintf_d_no_slash: "CHR ''/'' \<notin> set (Sprintf_d i)"
  using nat_digits_digits[of "nat i"] nat_digits_digits[of "nat (- i)"]
  by (auto simp: Sprintf_d_def)

lemma split_path_plain: "CHR ''/'' \<notin> set s \<Longrightarrow> split_path elem s = [elem @ s]"
  by (induction s arbitrary: elem) auto

lemma Join_string_plain:
  "CHR ''/'' \<notin> set s \<Longrightarrow> s \<noteq> [] \<Longrightarrow> s \<noteq> ''.'' \<Longrightarrow> s \<noteq> ''..'' \<Longrightarrow> Join_string p s = p @ [s]"
  by (simp add: Join_string_def split_path_plain)

lemma map_of_map_const:
  "x \<in> set xs \<Longrightarrow> map_of (map (\<lambda>k. (f k, v)) xs) (f x) = Some v"
  by (induction xs) auto

text \<open>
  A directory that holds the 51 files named by the candidates of the attempts 0 to 50,
  for the second of the call.
\<close>

definition taken :: filesystem where
  "taken =
     ([], Dir) # ([''backups''], Dir) #
     map (\<lambda>k. ([''backups'', candidate ''2016-01-02 15:04:05'' ''library'' (int k)], File []))
       [0..<51]"

lemma Stat_plain:
  "map_of fs p = Some n \<Longrightarrow> (\<And>t. n \<noteq> Symlink t) \<Longrightarrow> Stat fs p = Inr n"
  by (simp add: Stat_def follow_plain Lstat_def)

lemma taken_candidate:
  assumes "0 \<le> k" "k \<le> 50"
  shows "FileExists (Inr []) taken
           (Join_string [''backups''] (candidate ''2016-01-02 15:04:05'' ''library'' k)) =
         Inr [''backups'', candidate ''2016-01-02 15:04:05'' ''library'' k]"
proof -
  let ?c = "candidate ''2016-01-02 15:04:05'' ''library'' k"
  have ns: "CHR ''/'' \<notin> set ?c" using Sprintf_d_no_slash[of k] by (simp add: candidate_def)
  have j: "Join_string [''backups''] ?c = [''backups'', ?c]"
    using ns by (subst Join_string_plain) (simp_all add: candidate_def)
  have "nat k \<in> set [0..<51]" using assms by simp
  then have "map_of (map (\<lambda>k. ([''backups'', candidate ''2016-01-02 15:04:05'' ''library'' (int k)], File []))
               [0..<51]) [''backups'', candidate ''2016-01-02 15:04:05'' ''library'' (int (nat k))] =
             Some (File [])"
    by (rule map_of_map_const[where f = "\<lambda>k. [''backups'', candidate ''2016-01-02 15:04:05'' ''library'' (int k)]"])
  then have m: "map_of taken [''backups'', ?c] = Some (File [])"
    using assms by (simp add: taken_def)
  have "Stat taken [''backups'', ?c] = Inr (File [])" using m by (rule Stat_plain) simp
  then show ?thesis
    by (simp add: j FileExists_def IsAbs_def AbsoluteFileExists_def IsRegular_def)
qed

text \<open>
  C2 says that GetUniqueTimestampedFilename terminates on every state of the directory.
  On the directory above it does not: the 51 candidates exist, \<open>attempts\<close> reaches 51, and
  from then on the loop goes on whether a free name is found or not.
\<close>

theorem GetUniqueTimestampedFilename_never_returns:
  "GetUniqueTimestampedFilename (Inr []) ''2016-01-02 15:04:05'' taken [''backups'']
     ''library.json'' = None"
proof -
  have "map_of taken [''backups''] = Some Dir" by (simp add: taken_def)
  then have "Stat taken [''backups''] = Inr Dir" by (rule Stat_plain) simp
  then have d: "DirectoryExists taken [''backups'']" by (simp add: DirectoryExists_def)
  have b: "TrimSuffix (Base ''library.json'') (Ext ''library.json'') = ''library''"
    by (simp add: TrimSuffix_def Base_def Ext_def)
  have "GetUniqueTimestampedFilename_loop (Inr []) taken ''2016-01-02 15:04:05'' [''backups'']
          ''library'' False 0 [] = None"
    using taken_candidate by (intro loop_all_taken[OF _ refl]) auto
  then show ?thesis
    using d b by (simp add: GetUniqueTimestampedFilename_def Let_def)
qed

text \<open>With one candidate taken, the second is returned.\<close>

lemma GetUniqueTimestampedFilename_example:
  "GetUniqueTimestampedFilename (Inr []) ''2016-01-02 15:04:05''
     [([], Dir), ([''backups''], Dir),
      ([''backups'', ''2016-01-02 15:04:05 - library.tar.gz''], File [])]
     [''backups''] ''library.json'' =
   Some (([''backups'', ''2016-01-02 15:04:05 - library_1.tar.gz''], None),
     [([], Dir), ([''backups''], Dir),
      ([''backups'', ''2016-01-02 15:04:05 - library.tar.gz''], File [])])"
  by (simp add: GetUniqueTimestampedFilename_def Let_def DirectoryExists_def Stat_def Lstat_def
      numeral_eq_Suc TrimSuffix_def Base_def Ext_def GetUniqueTimestampedFilename_loop.simps
      FileExists_def IsAbs_def AbsoluteFileExists_def IsRegular_def Join_string_def candidate_def
      Sprintf_d_def nat_digits.simps)

section \<open>Properties of CopyDir\<close>







lemma map_of_snoc_Some: "map_of fs q = Some m \<Longrightarrow> map_of (fs @ [(p, n)]) q = Some m"
  by (simp add: map_add_def)

lemma map_of_snoc_None:
  "map_of fs q = None \<Longrightarrow> map_of (fs @ [(p, n)]) q = (if q = p then Some n else None)"
  by (simp add: map_add_def)

















lemma prefix_other_child: "name \<noteq> name' \<Longrightarrow> \<not> prefix (dst @ [name]) (dst @ name' # r)"
  by simp











text \<open>An example: a library with a subdirectory, a link and an empty directory.\<close>

definition lib :: filesystem where
  "lib = [([], Dir), ([''lib''], Dir), ([''lib'', ''a.epub''], File ''A''), ([''lib'', ''sub''], Dir),
          ([''lib'', ''sub'', ''b.epub''], File ''B''), ([''lib'', ''link''], Symlink [''lib'', ''sub'']),
          ([''lib'', ''empty''], Dir), ([''other''], File ''x'')]"

lemma CopyDir_lib:
  "CopyDir lib [''lib''] [''backup'', ''today''] =
     Some (None, lib @
       [([''backup''], Dir), ([''backup'', ''today''], Dir),
        ([''backup'', ''today'', ''a.epub''], File ''A''),
        ([''backup'', ''today'', ''empty''], Dir),
        ([''backup'', ''today'', ''sub''], Dir),
        ([''backup'', ''today'', ''sub'', ''b.epub''], File ''B'')])"
  by (simp add: CopyDir_def copy.simps Stat_def Lstat_def MkdirAll.simps Mkdir_def ReadDir_def
      open_dir_def dir_entries_def Join_def CopyFile_def copyFileContents_def IsRegular_def
      IsSymlink_def SameFile_def lib_def numeral_eq_Suc)


end
